theory Spec2Isabelle
  imports Main "HOL-Library.Log_Nat" "HOL-Library.Char_ord" "HOL-Library.List_Lexorder"
    "HOL-Library.Option_ord" "HOL-Library.Product_Lexorder"
begin

section \<open>JavaScript numbers\<close>

text \<open>
  The services compute with JavaScript numbers, which are IEEE 754 binary64 values.
  A finite double is modelled by the rational it denotes, and an arithmetic operation by
  the exact operation followed by \<open>fl\<close>: rounding to the nearest value with a 53 bit
  significand, a tie going to the even significand. The exponent range is not modelled:
  the numbers of this program are row counts and their quotients, far from overflow and
  underflow.
\<close>

definition round_half_even :: "rat \<Rightarrow> int" where
  "round_half_even x =
     (let f = \<lfloor>x\<rfloor>; r = x - of_int f
      in if r < 1/2 then f else if 1/2 < r then f + 1 else if even f then f else f + 1)"

text \<open>The binary exponent \<open>k\<close> of a positive rational \<open>x\<close>: \<open>2 powi k \<le> x < 2 powi (k + 1)\<close>.\<close>

definition ilog2 :: "rat \<Rightarrow> int" where
  "ilog2 x =
     (let (p, q) = quotient_of x; d = bitlen p - bitlen q
      in if q * 2 ^ nat (bitlen p) \<le> p * 2 ^ nat (bitlen q) then d else d - 1)"

definition fl :: "rat \<Rightarrow> rat" where
  "fl x =
     (if x = 0 then 0
      else let e = ilog2 \<bar>x\<bar> - 52
           in sgn x * of_int (round_half_even (\<bar>x\<bar> * 2 powi (- e))) * 2 powi e)"

text \<open>\<^verbatim>\<open>Math.round\<close>: the nearest integer, a tie going up.\<close>

definition Math_round :: "rat \<Rightarrow> int" where
  "Math_round x = \<lfloor>x + 1/2\<rfloor>"

text \<open>A row count (\<^verbatim>\<open>COUNT(*)\<close>) as the number that reaches JavaScript.\<close>

definition Number_of_count :: "nat \<Rightarrow> rat" where
  "Number_of_count n = fl (of_nat n)"

section \<open>Column values of the store\<close>

text \<open>
  The columns \<^verbatim>\<open>due_date\<close> and \<^verbatim>\<open>target_date\<close> are declared \<^verbatim>\<open>DATE\<close>, which gives
  them numeric affinity: a text that reads as a number is stored as that number, an
  integer if it is one, and comes back to the service as a number; any other text stays
  text. \<open>sqlite3AtoF\<close> reads the text as the store does: blanks, a sign, digits, a
  fraction, an exponent, blanks, with at least one digit before the exponent; it yields
  whether the text is a plain integer, and the value. The nearest double stands for the
  conversion of a text with a fraction or an exponent, which is what the store promises
  for up to 15 significant digits.
\<close>

datatype SqlValue = SqlInteger int | SqlReal rat | SqlInfinity bool | SqlText string

definition Isspace :: "char \<Rightarrow> bool" where
  "Isspace c = (c \<in> set [CHR 0x20, CHR 0x09, CHR 0x0A, CHR 0x0B, CHR 0x0C, CHR 0x0D])"

definition Isdigit :: "char \<Rightarrow> bool" where
  "Isdigit c = (c \<in> set ''0123456789'')"

definition digits_value :: "string \<Rightarrow> int" where
  "digits_value ds = foldl (\<lambda>n c. 10 * n + (of_char c - 48)) 0 ds"

definition strip_sign :: "string \<Rightarrow> int \<times> string" where
  "strip_sign z =
     (case z of
        [] \<Rightarrow> (1, [])
      | c # cs \<Rightarrow> if c = CHR ''-'' then (- 1, cs) else if c = CHR ''+'' then (1, cs) else (1, z))"

definition sqlite3AtoF :: "string \<Rightarrow> (bool \<times> rat) option" where
  "sqlite3AtoF txt =
     (let z1 = dropWhile Isspace txt;
          (sign, z2) = strip_sign z1;
          ip = takeWhile Isdigit z2;
          z3 = dropWhile Isdigit z2;
          point = (case z3 of [] \<Rightarrow> False | c # cs \<Rightarrow> c = CHR ''.'');
          fp = (if point then takeWhile Isdigit (tl z3) else []);
          z4 = (if point then dropWhile Isdigit (tl z3) else z3);
          expo = (case z4 of [] \<Rightarrow> False | c # cs \<Rightarrow> c = CHR ''e'' \<or> c = CHR ''E'');
          (esign, z5) = (if expo then strip_sign (tl z4) else (1, z4));
          ep = (if expo then takeWhile Isdigit z5 else []);
          z6 = (if expo then dropWhile Isdigit z5 else z4);
          rest = dropWhile Isspace z6
      in if rest = [] \<and> ip @ fp \<noteq> [] \<and> (if expo then ep \<noteq> [] else True)
         then Some (\<not> point \<and> \<not> expo,
                    of_int (sign * digits_value (ip @ fp)) *
                      10 powi (esign * digits_value ep - int (length fp)))
         else None)"

text \<open>
  The double nearest to a rational, with the range of the exponent: below the least
  normal number the spacing is fixed, and a magnitude that rounds beyond the largest
  double is an infinity.
\<close>

definition double_value :: "rat \<Rightarrow> SqlValue" where
  "double_value v =
     (if \<bar>v\<bar> < 2 powi (- 1022)
      then SqlReal (of_int (round_half_even (v * 2 powi 1074)) * 2 powi (- 1074))
      else if 2 powi 1024 \<le> \<bar>fl v\<bar> then SqlInfinity (0 < v)
      else SqlReal (fl v))"

text \<open>A real value that is an integer between the bounds of 64 bits is stored as that integer.\<close>

definition IntegerAffinity :: "SqlValue \<Rightarrow> SqlValue" where
  "IntegerAffinity v =
     (case v of
        SqlReal r \<Rightarrow>
          if r = of_int \<lfloor>r\<rfloor> \<and> - (2 ^ 63) < r \<and> r < 2 ^ 63 then SqlInteger \<lfloor>r\<rfloor> else v
      | _ \<Rightarrow> v)"

definition numeric_affinity :: "string \<Rightarrow> SqlValue" where
  "numeric_affinity txt =
     (case sqlite3AtoF txt of
        None \<Rightarrow> SqlText txt
      | Some (plain, v) \<Rightarrow>
          if plain \<and> - (2 ^ 63) \<le> v \<and> v < 2 ^ 63 then SqlInteger \<lfloor>v\<rfloor>
          else IntegerAffinity (double_value v))"

text \<open>
  The order of \<^verbatim>\<open>ORDER BY\<close> on such a column: numbers by value, before every text; texts
  byte by byte. A null comes first, which the order on \<open>option\<close> gives.
\<close>

fun sql_order :: "SqlValue \<Rightarrow> nat \<times> rat \<times> string" where
  "sql_order (SqlInfinity False) = (0, 0, [])"
| "sql_order (SqlInteger i) = (1, of_int i, [])"
| "sql_order (SqlReal r) = (1, r, [])"
| "sql_order (SqlInfinity True) = (2, 0, [])"
| "sql_order (SqlText txt) = (3, 0, txt)"

section \<open>Data model (types.ts, db/init.ts)\<close>

text \<open>
  The interfaces of \<^verbatim>\<open>types.ts\<close> as records, one row type for each table of the schema.
  The tables share column names, so each field carries the initial of its record
  (\<open>p_id\<close>, \<open>m_id\<close>, \<open>t_id\<close>); the literals of a status carry one for the same reason.
  An id or a priority is a JavaScript number holding an integer. A date of a row is the
  value the store holds for it; the date of an input is the string the caller supplies.
  An integer is read as the store holds it: the model does not round one beyond
  \<open>2 ^ 53\<close> to a double.
\<close>

datatype ProjectStatus = ps_active | ps_completed | ps_on_hold | ps_archived
datatype MilestoneStatus = ms_pending | ms_reached
datatype TodoStatus = ts_pending | ts_completed
datatype TodoLevel = task | subtask

text \<open>The column texts, which the filters of the list queries compare with.\<close>

fun ProjectStatus_text :: "ProjectStatus \<Rightarrow> string" where
  "ProjectStatus_text ps_active = ''active''"
| "ProjectStatus_text ps_completed = ''completed''"
| "ProjectStatus_text ps_on_hold = ''on_hold''"
| "ProjectStatus_text ps_archived = ''archived''"

fun TodoStatus_text :: "TodoStatus \<Rightarrow> string" where
  "TodoStatus_text ts_pending = ''pending''"
| "TodoStatus_text ts_completed = ''completed''"

fun TodoLevel_text :: "TodoLevel \<Rightarrow> string" where
  "TodoLevel_text task = ''task''"
| "TodoLevel_text subtask = ''subtask''"

record Project =
  p_id :: int
  p_name :: string
  p_description :: "string option"
  p_status :: ProjectStatus
  p_created_at :: string
  p_updated_at :: string

record ProjectWithProgress = Project +
  p_total_tasks :: rat
  p_completed_tasks :: rat
  p_progress_percent :: int

record ProjectCreateInput =
  pc_name :: string
  pc_description :: "string option"

text \<open>
  An update input: \<open>None\<close> is a key that is not supplied; for a nullable column
  \<open>Some None\<close> is the key supplied with \<^verbatim>\<open>null\<close>.
\<close>

record ProjectUpdateInput =
  pu_name :: "string option"
  pu_description :: "string option option"
  pu_status :: "ProjectStatus option"

record Milestone =
  m_id :: int
  m_project_id :: int
  m_title :: string
  m_target_date :: SqlValue
  m_status :: MilestoneStatus
  m_created_at :: string

record MilestoneWithProgress = Milestone +
  m_total_tasks :: rat
  m_completed_tasks :: rat
  m_progress_percent :: int

record MilestoneCreateInput =
  mc_project_id :: int
  mc_title :: string
  mc_target_date :: string

record Todo =
  t_id :: int
  t_title :: string
  t_description :: "string option"
  t_status :: TodoStatus
  t_priority :: int
  t_due_date :: "SqlValue option"
  t_project_id :: "int option"
  t_parent_id :: "int option"
  t_milestone_id :: "int option"
  t_level :: TodoLevel
  t_created_at :: string
  t_updated_at :: string

record TodoCreateInput =
  tc_title :: string
  tc_description :: "string option"
  tc_priority :: "int option"
  tc_due_date :: "string option"
  tc_project_id :: "int option"
  tc_parent_id :: "int option"
  tc_milestone_id :: "int option"

record TodoUpdateInput =
  tu_title :: "string option"
  tu_description :: "string option option"
  tu_status :: "TodoStatus option"
  tu_priority :: "int option"
  tu_due_date :: "string option option"
  tu_project_id :: "int option option"
  tu_parent_id :: "int option option"
  tu_milestone_id :: "int option option"

text \<open>
  The store is a \<^verbatim>\<open>DbWrapper\<close>: the tables of projects, milestones and todos in rowid
  order and, for each, the largest rowid it ever held (\<^verbatim>\<open>AUTOINCREMENT\<close>); the path of
  the file the database is saved to, if any; and whether the open connection enforces the
  foreign keys (\<^verbatim>\<open>PRAGMA foreign_keys\<close>). The table of tool actions is left out: only
  \<^verbatim>\<open>logAction\<close> writes it and nothing reads it.
\<close>

record Store =
  projects :: "Project list"
  milestones :: "Milestone list"
  todos :: "Todo list"
  seq_projects :: int
  seq_milestones :: int
  seq_todos :: int
  filePath :: "string option"
  foreign_keys :: bool

text \<open>
  A new connection does not enforce foreign keys. \<open>existing\<close> is the database a file
  holds: its tables are read, its connection is new.
\<close>

definition new_Database :: "Store option \<Rightarrow> string option \<Rightarrow> Store" where
  "new_Database existing path =
     (case existing of
        None \<Rightarrow> \<lparr>projects = [], milestones = [], todos = [],
                 seq_projects = 0, seq_milestones = 0, seq_todos = 0,
                 filePath = path, foreign_keys = False\<rparr>
      | Some file \<Rightarrow> file\<lparr>filePath := path, foreign_keys := False\<rparr>)"

text \<open>
  \<^verbatim>\<open>_save\<close> writes the database to the file when there is a path (a truthy one). The
  bytes come from \<^verbatim>\<open>export()\<close> of sql.js, which closes the connection and opens it
  again: the tables are as before, and the pragmas are back to their defaults, so foreign
  keys are no longer enforced. Every \<^verbatim>\<open>exec\<close> and every \<^verbatim>\<open>run\<close> that does not raise
  ends with \<^verbatim>\<open>_save\<close>.
\<close>

definition Database_export :: "Store \<Rightarrow> Store" where
  "Database_export s = s\<lparr>foreign_keys := False\<rparr>"

definition save :: "Store \<Rightarrow> Store" where
  "save s =
     (case filePath s of
        None \<Rightarrow> s
      | Some path \<Rightarrow> if path = [] then s else Database_export s)"

definition pragma_foreign_keys_ON :: "Store \<Rightarrow> Store" where
  "pragma_foreign_keys_ON s = s\<lparr>foreign_keys := True\<rparr>"

text \<open>
  \<^verbatim>\<open>initTables\<close> creates the tables and indexes that are missing, each with an
  \<^verbatim>\<open>exec\<close>: no row changes, and the database is saved.
\<close>

definition initTables :: "Store \<Rightarrow> Store" where
  "initTables s = save s"

definition createTestDb :: Store where
  "createTestDb = initTables (pragma_foreign_keys_ON (new_Database None None))"

text \<open>
  The first call of \<^verbatim>\<open>getDb\<close> (a later one returns the same wrapper), with the path
  argument, the environment variable \<^verbatim>\<open>DB_PATH\<close> and the database the file of the
  chosen path holds, if the file exists. \<open>or_else\<close> is \<^verbatim>\<open>||\<close> on a string that may
  be missing: an empty string counts as missing.
\<close>

definition or_else :: "string option \<Rightarrow> string \<Rightarrow> string" where
  "or_else v d = (case v of None \<Rightarrow> d | Some x \<Rightarrow> if x = [] then d else x)"

definition getDb :: "string option \<Rightarrow> string option \<Rightarrow> Store option \<Rightarrow> Store" where
  "getDb dbPath DB_PATH existing =
     (let p = or_else dbPath (or_else DB_PATH ''./data/todos.db'');
          sqlDb = (if p = '':memory:'' then new_Database None None
                   else new_Database existing (Some p))
      in initTables (pragma_foreign_keys_ON sqlDb))"

definition next_rowid :: "int \<Rightarrow> int list \<Rightarrow> int" where
  "next_rowid seq ids = fold max ids seq + 1"

text \<open>
  \<^verbatim>\<open>ServiceError\<close> with its status code and code (the message is left out), and the
  failure of a constraint of the schema, which the store raises.
\<close>

datatype constraint = CHECK_priority | FOREIGN_KEY

datatype error = ServiceError int string | ConstraintFailed constraint

section \<open>ProjectService (services/projectService.ts)\<close>

definition attachProgress :: "Store \<Rightarrow> Project \<Rightarrow> ProjectWithProgress" where
  "attachProgress s project =
     (let total = length [t \<leftarrow> todos s. t_project_id t = Some (p_id project)];
          completed = length [t \<leftarrow> todos s.
             t_project_id t = Some (p_id project) \<and> t_status t = ts_completed];
          totalCount = Number_of_count total;
          completedCount = Number_of_count completed
      in Project.extend project
           (ProjectWithProgress.fields totalCount completedCount
              (if 0 < totalCount then Math_round (fl (fl (completedCount / totalCount) * 100))
               else 0)))"

definition ProjectService_getAll :: "Store \<Rightarrow> string option \<Rightarrow> ProjectWithProgress list" where
  "ProjectService_getAll s status =
     (let rows = (case status of
                    None \<Rightarrow> projects s
                  | Some st \<Rightarrow> if st = [] then projects s
                      else [p \<leftarrow> projects s. ProjectStatus_text (p_status p) = st])
      in map (attachProgress s) (rev (sort_key p_id rows)))"

definition ProjectService_getById :: "Store \<Rightarrow> int \<Rightarrow> error + ProjectWithProgress" where
  "ProjectService_getById s ident =
     (case find (\<lambda>p. p_id p = ident) (projects s) of
        None \<Rightarrow> Inl (ServiceError 404 ''PROJECT_NOT_FOUND'')
      | Some project \<Rightarrow> Inr (attachProgress s project))"

definition ProjectService_create ::
  "string \<Rightarrow> Store \<Rightarrow> ProjectCreateInput \<Rightarrow> Store \<times> (error + ProjectWithProgress)" where
  "ProjectService_create now s data =
     (let rowid = next_rowid (seq_projects s) (map p_id (projects s));
          row = \<lparr>p_id = rowid, p_name = pc_name data, p_description = pc_description data,
                 p_status = ps_active, p_created_at = now, p_updated_at = now\<rparr>;
          s' = save (s\<lparr>projects := projects s @ [row], seq_projects := rowid\<rparr>)
      in (s', ProjectService_getById s' rowid))"

definition apply_project_update :: "string \<Rightarrow> ProjectUpdateInput \<Rightarrow> Project \<Rightarrow> Project" where
  "apply_project_update now data p =
     p\<lparr>p_name := (case pu_name data of None \<Rightarrow> p_name p | Some v \<Rightarrow> v),
       p_description := (case pu_description data of None \<Rightarrow> p_description p | Some v \<Rightarrow> v),
       p_status := (case pu_status data of None \<Rightarrow> p_status p | Some v \<Rightarrow> v),
       p_updated_at := now\<rparr>"

definition ProjectService_update ::
  "string \<Rightarrow> Store \<Rightarrow> int \<Rightarrow> ProjectUpdateInput \<Rightarrow> Store \<times> (error + ProjectWithProgress)" where
  "ProjectService_update now s ident data =
     (case ProjectService_getById s ident of
        Inl e \<Rightarrow> (s, Inl e)
      | Inr _ \<Rightarrow>
          (let s' = save (s\<lparr>projects :=
                 map (\<lambda>p. if p_id p = ident then apply_project_update now data p else p)
                   (projects s)\<rparr>)
           in (s', ProjectService_getById s' ident)))"

text \<open>
  Deleting a project row. When the connection enforces foreign keys, its milestones go
  with it (\<^verbatim>\<open>ON DELETE CASCADE\<close>), and the todos that referred to the project or to one
  of these milestones keep their row with the reference cleared
  (\<^verbatim>\<open>ON DELETE SET NULL\<close>). When it does not, only the project row goes.
\<close>

definition clear_milestone :: "(int \<Rightarrow> bool) \<Rightarrow> Todo \<Rightarrow> Todo" where
  "clear_milestone gone t =
     (case t_milestone_id t of
        None \<Rightarrow> t
      | Some m \<Rightarrow> if gone m then t\<lparr>t_milestone_id := None\<rparr> else t)"

definition clear_project :: "int \<Rightarrow> Todo \<Rightarrow> Todo" where
  "clear_project ident t =
     (if t_project_id t = Some ident then t\<lparr>t_project_id := None\<rparr> else t)"

definition ProjectService_delete :: "Store \<Rightarrow> int \<Rightarrow> Store \<times> (error + int)" where
  "ProjectService_delete s ident =
     (case ProjectService_getById s ident of
        Inl e \<Rightarrow> (s, Inl e)
      | Inr _ \<Rightarrow>
          (let gone = [m \<leftarrow> milestones s. m_project_id m = ident]
           in (save
                 (if foreign_keys s
                  then s\<lparr>projects := [p \<leftarrow> projects s. p_id p \<noteq> ident],
                         milestones := [m \<leftarrow> milestones s. m_project_id m \<noteq> ident],
                         todos := map (clear_project ident \<circ>
                                       clear_milestone (\<lambda>i. i \<in> m_id ` set gone)) (todos s)\<rparr>
                  else s\<lparr>projects := [p \<leftarrow> projects s. p_id p \<noteq> ident]\<rparr>),
               Inr ident)))"

definition attachMilestoneProgress :: "Store \<Rightarrow> Milestone \<Rightarrow> MilestoneWithProgress" where
  "attachMilestoneProgress s milestone =
     (let total = length [t \<leftarrow> todos s. t_milestone_id t = Some (m_id milestone)];
          completed = length [t \<leftarrow> todos s.
             t_milestone_id t = Some (m_id milestone) \<and> t_status t = ts_completed];
          totalCount = Number_of_count total;
          completedCount = Number_of_count completed
      in Milestone.extend milestone
           (MilestoneWithProgress.fields totalCount completedCount
              (if 0 < totalCount then Math_round (fl (fl (completedCount / totalCount) * 100))
               else 0)))"

definition ProjectService_getMilestones ::
  "Store \<Rightarrow> int \<Rightarrow> error + MilestoneWithProgress list" where
  "ProjectService_getMilestones s projectId =
     (case ProjectService_getById s projectId of
        Inl e \<Rightarrow> Inl e
      | Inr _ \<Rightarrow>
          Inr (map (attachMilestoneProgress s)
                 (sort_key (\<lambda>m. sql_order (m_target_date m))
                    [m \<leftarrow> milestones s. m_project_id m = projectId])))"

definition ProjectService_getMilestoneById :: "Store \<Rightarrow> int \<Rightarrow> error + MilestoneWithProgress" where
  "ProjectService_getMilestoneById s ident =
     (case find (\<lambda>m. m_id m = ident) (milestones s) of
        None \<Rightarrow> Inl (ServiceError 404 ''MILESTONE_NOT_FOUND'')
      | Some m \<Rightarrow> Inr (attachMilestoneProgress s m))"

definition ProjectService_createMilestone ::
  "string \<Rightarrow> Store \<Rightarrow> MilestoneCreateInput \<Rightarrow> Store \<times> (error + MilestoneWithProgress)" where
  "ProjectService_createMilestone now s data =
     (case ProjectService_getById s (mc_project_id data) of
        Inl e \<Rightarrow> (s, Inl e)
      | Inr _ \<Rightarrow>
          (let rowid = next_rowid (seq_milestones s) (map m_id (milestones s));
               row = \<lparr>m_id = rowid, m_project_id = mc_project_id data, m_title = mc_title data,
                      m_target_date = numeric_affinity (mc_target_date data),
                      m_status = ms_pending, m_created_at = now\<rparr>;
               s' = save (s\<lparr>milestones := milestones s @ [row], seq_milestones := rowid\<rparr>)
           in (s', ProjectService_getMilestoneById s' rowid)))"

definition ProjectService_completeMilestone ::
  "Store \<Rightarrow> int \<Rightarrow> bool \<Rightarrow> Store \<times> (error + MilestoneWithProgress)" where
  "ProjectService_completeMilestone s ident undo =
     (case ProjectService_getMilestoneById s ident of
        Inl e \<Rightarrow> (s, Inl e)
      | Inr _ \<Rightarrow>
          (let newStatus = (if undo then ms_pending else ms_reached);
               s' = save (s\<lparr>milestones :=
                 map (\<lambda>m. if m_id m = ident then m\<lparr>m_status := newStatus\<rparr> else m)
                   (milestones s)\<rparr>)
           in (s', ProjectService_getMilestoneById s' ident)))"

text \<open>
  Deleting a milestone row: the todos linked to it keep their row, with the link cleared
  (\<^verbatim>\<open>ON DELETE SET NULL\<close>) when the connection enforces foreign keys.
\<close>

definition ProjectService_deleteMilestone :: "Store \<Rightarrow> int \<Rightarrow> Store \<times> (error + int)" where
  "ProjectService_deleteMilestone s ident =
     (case ProjectService_getMilestoneById s ident of
        Inl e \<Rightarrow> (s, Inl e)
      | Inr _ \<Rightarrow>
          (save
             (if foreign_keys s
              then s\<lparr>milestones := [m \<leftarrow> milestones s. m_id m \<noteq> ident],
                     todos := map (clear_milestone (\<lambda>i. i = ident)) (todos s)\<rparr>
              else s\<lparr>milestones := [m \<leftarrow> milestones s. m_id m \<noteq> ident]\<rparr>),
           Inr ident))"

section \<open>TodoService (services/todoService.ts)\<close>

record TodoWithChildren = Todo +
  subtasks :: "Todo list"

record TodoListOptions =
  o_status :: "string option"
  o_project_id :: "int option"
  o_parent_id :: "int option option"
  o_level :: "string option"

record TodoListResult =
  r_todos :: "Todo list"
  r_totalCount :: nat

text \<open>A filter that is a string applies when the string is truthy, that is, not empty.\<close>

definition text_filter :: "string option \<Rightarrow> string \<Rightarrow> bool" where
  "text_filter f v = (case f of None \<Rightarrow> True | Some st \<Rightarrow> st = [] \<or> v = st)"

text \<open>\<^verbatim>\<open>ORDER BY priority ASC, due_date ASC\<close>; a null date sorts before every date.\<close>

definition by_priority_due_date :: "Todo list \<Rightarrow> Todo list" where
  "by_priority_due_date rows =
     sort_key (\<lambda>t. (t_priority t, map_option sql_order (t_due_date t))) rows"

definition TodoService_getAll :: "Store \<Rightarrow> TodoListOptions \<Rightarrow> TodoListResult" where
  "TodoService_getAll s options =
     (let rows = [t \<leftarrow> todos s.
                   text_filter (o_status options) (TodoStatus_text (t_status t)) \<and>
                   (case o_project_id options of
                      None \<Rightarrow> True | Some p \<Rightarrow> t_project_id t = Some p) \<and>
                   (case o_parent_id options of
                      None \<Rightarrow> True
                    | Some None \<Rightarrow> t_parent_id t = None
                    | Some (Some p) \<Rightarrow> t_parent_id t = Some p) \<and>
                   text_filter (o_level options) (TodoLevel_text (t_level t))];
          result = by_priority_due_date rows
      in \<lparr>r_todos = result, r_totalCount = length result\<rparr>)"

definition TodoService_getStandalone :: "Store \<Rightarrow> string option \<Rightarrow> TodoListResult" where
  "TodoService_getStandalone s status =
     (let rows = [t \<leftarrow> todos s.
                   t_project_id t = None \<and> t_parent_id t = None \<and>
                   text_filter status (TodoStatus_text (t_status t))];
          result = by_priority_due_date rows
      in \<lparr>r_todos = result, r_totalCount = length result\<rparr>)"

definition TodoService_getProjectTree :: "Store \<Rightarrow> int \<Rightarrow> TodoWithChildren list" where
  "TodoService_getProjectTree s projectId =
     (let tasks = by_priority_due_date
            [t \<leftarrow> todos s. t_project_id t = Some projectId \<and> t_parent_id t = None]
      in map (\<lambda>task. Todo.extend task
                (TodoWithChildren.fields
                   (by_priority_due_date [t \<leftarrow> todos s. t_parent_id t = Some (t_id task)])))
           tasks)"

definition TodoService_getById :: "Store \<Rightarrow> int \<Rightarrow> error + Todo" where
  "TodoService_getById s ident =
     (case find (\<lambda>t. t_id t = ident) (todos s) of
        None \<Rightarrow> Inl (ServiceError 404 ''TODO_NOT_FOUND'')
      | Some todo \<Rightarrow> Inr todo)"

text \<open>
  The \<^verbatim>\<open>INSERT\<close> into todos with its eight bound values. The store checks the
  priority (\<^verbatim>\<open>CHECK (priority BETWEEN 1 AND 5)\<close>) and, when the connection enforces
  foreign keys, the three references; a violated constraint raises and leaves the table
  as it was, and nothing is saved.
\<close>

definition ref_ok :: "int option \<Rightarrow> int list \<Rightarrow> bool" where
  "ref_ok r ids = (case r of None \<Rightarrow> True | Some i \<Rightarrow> i \<in> set ids)"

definition todo_row ::
  "string \<Rightarrow> int \<Rightarrow> string \<Rightarrow> string option \<Rightarrow> int \<Rightarrow> string option \<Rightarrow>
     int option \<Rightarrow> int option \<Rightarrow> int option \<Rightarrow> TodoLevel \<Rightarrow> Todo" where
  "todo_row now rowid title description priority due_date project_id parent_id milestone_id level =
     \<lparr>t_id = rowid, t_title = title, t_description = description,
       t_status = ts_pending, t_priority = priority,
       t_due_date = map_option numeric_affinity due_date,
       t_project_id = project_id, t_parent_id = parent_id,
       t_milestone_id = milestone_id, t_level = level,
       t_created_at = now, t_updated_at = now\<rparr>"

definition insert_todo ::
  "string \<Rightarrow> Store \<Rightarrow> string \<Rightarrow> string option \<Rightarrow> int \<Rightarrow> string option \<Rightarrow>
     int option \<Rightarrow> int option \<Rightarrow> int option \<Rightarrow> TodoLevel \<Rightarrow> error + Store \<times> int" where
  "insert_todo now s title description priority due_date project_id parent_id milestone_id level =
     (let rowid = next_rowid (seq_todos s) (map t_id (todos s));
          row = todo_row now rowid title description priority due_date project_id parent_id
                  milestone_id level
      in if \<not> (1 \<le> priority \<and> priority \<le> 5) then Inl (ConstraintFailed CHECK_priority)
         else if (if foreign_keys s
                  then ref_ok project_id (map p_id (projects s)) \<and>
                       ref_ok parent_id (rowid # map t_id (todos s)) \<and>
                       ref_ok milestone_id (map m_id (milestones s))
                  else True)
         then Inr (save (s\<lparr>todos := todos s @ [row], seq_todos := rowid\<rparr>), rowid)
         else Inl (ConstraintFailed FOREIGN_KEY))"

text \<open>
  \<^verbatim>\<open>create\<close>. A \<^verbatim>\<open>parent_id\<close> counts as present when it is truthy: supplied and
  not 0.
\<close>

definition TodoService_create ::
  "string \<Rightarrow> Store \<Rightarrow> TodoCreateInput \<Rightarrow> Store \<times> (error + Todo)" where
  "TodoService_create now s data =
     (let priority = (case tc_priority data of None \<Rightarrow> 3 | Some p \<Rightarrow> p);
          parent_id = tc_parent_id data;
          present = (case parent_id of None \<Rightarrow> False | Some p \<Rightarrow> p \<noteq> 0);
          level = (if present then subtask else task);
          resolved =
            (case parent_id of
               None \<Rightarrow> Inr (tc_project_id data)
             | Some p \<Rightarrow>
                 if p = 0 then Inr (tc_project_id data)
                 else (case TodoService_getById s p of
                         Inl e \<Rightarrow> Inl e
                       | Inr parent \<Rightarrow>
                           if t_level parent = subtask
                           then Inl (ServiceError 400 ''MAX_DEPTH_EXCEEDED'')
                           else Inr (t_project_id parent)))
      in case resolved of
           Inl e \<Rightarrow> (s, Inl e)
         | Inr resolvedProjectId \<Rightarrow>
             (case insert_todo now s (tc_title data) (tc_description data) priority
                     (tc_due_date data) resolvedProjectId parent_id (tc_milestone_id data) level of
                Inl e \<Rightarrow> (s, Inl e)
              | Inr (s', lastInsertRowid) \<Rightarrow> (s', TodoService_getById s' lastInsertRowid)))"

text \<open>
  \<^verbatim>\<open>createMany\<close> is \<^verbatim>\<open>items.map((item) => this.create(item))\<close>: the items in
  order, an exception of one of them ending the whole call with the store as it is then.
\<close>

fun TodoService_createMany ::
  "string \<Rightarrow> Store \<Rightarrow> TodoCreateInput list \<Rightarrow> Store \<times> (error + Todo list)" where
  "TodoService_createMany now s [] = (s, Inr [])"
| "TodoService_createMany now s (item # items) =
     (case TodoService_create now s item of
        (s', Inl e) \<Rightarrow> (s', Inl e)
      | (s', Inr todo) \<Rightarrow>
          (case TodoService_createMany now s' items of
             (s'', Inl e) \<Rightarrow> (s'', Inl e)
           | (s'', Inr created) \<Rightarrow> (s'', Inr (todo # created))))"

definition apply_todo_update :: "string \<Rightarrow> TodoUpdateInput \<Rightarrow> Todo \<Rightarrow> Todo" where
  "apply_todo_update now data t =
     t\<lparr>t_title := (case tu_title data of None \<Rightarrow> t_title t | Some v \<Rightarrow> v),
       t_description := (case tu_description data of None \<Rightarrow> t_description t | Some v \<Rightarrow> v),
       t_status := (case tu_status data of None \<Rightarrow> t_status t | Some v \<Rightarrow> v),
       t_priority := (case tu_priority data of None \<Rightarrow> t_priority t | Some v \<Rightarrow> v),
       t_due_date := (case tu_due_date data of
                        None \<Rightarrow> t_due_date t | Some v \<Rightarrow> map_option numeric_affinity v),
       t_project_id := (case tu_project_id data of None \<Rightarrow> t_project_id t | Some v \<Rightarrow> v),
       t_parent_id := (case tu_parent_id data of None \<Rightarrow> t_parent_id t | Some v \<Rightarrow> v),
       t_milestone_id := (case tu_milestone_id data of None \<Rightarrow> t_milestone_id t | Some v \<Rightarrow> v),
       t_updated_at := now\<rparr>"

text \<open>
  The \<^verbatim>\<open>UPDATE\<close> of todos: the constraints on the columns it sets are checked as for
  an insert, the references when the connection enforces foreign keys.
\<close>

definition supplied_ref_ok :: "int option option \<Rightarrow> int list \<Rightarrow> bool" where
  "supplied_ref_ok v ids = (case v of None \<Rightarrow> True | Some r \<Rightarrow> ref_ok r ids)"

definition update_todo :: "string \<Rightarrow> Store \<Rightarrow> int \<Rightarrow> TodoUpdateInput \<Rightarrow> error + Store" where
  "update_todo now s ident data =
     (if (case tu_priority data of None \<Rightarrow> False | Some p \<Rightarrow> \<not> (1 \<le> p \<and> p \<le> 5))
      then Inl (ConstraintFailed CHECK_priority)
      else if (if foreign_keys s
               then supplied_ref_ok (tu_project_id data) (map p_id (projects s)) \<and>
                    supplied_ref_ok (tu_parent_id data) (map t_id (todos s)) \<and>
                    supplied_ref_ok (tu_milestone_id data) (map m_id (milestones s))
               else True)
      then Inr (save (s\<lparr>todos :=
                  map (\<lambda>t. if t_id t = ident then apply_todo_update now data t else t)
                    (todos s)\<rparr>))
      else Inl (ConstraintFailed FOREIGN_KEY))"

definition TodoService_update ::
  "string \<Rightarrow> Store \<Rightarrow> int \<Rightarrow> TodoUpdateInput \<Rightarrow> Store \<times> (error + Todo)" where
  "TodoService_update now s ident data =
     (case TodoService_getById s ident of
        Inl e \<Rightarrow> (s, Inl e)
      | Inr _ \<Rightarrow>
          (case update_todo now s ident data of
             Inl e \<Rightarrow> (s, Inl e)
           | Inr s' \<Rightarrow> (s', TodoService_getById s' ident)))"

definition no_fields :: TodoUpdateInput where
  "no_fields = \<lparr>tu_title = None, tu_description = None, tu_status = None, tu_priority = None,
     tu_due_date = None, tu_project_id = None, tu_parent_id = None, tu_milestone_id = None\<rparr>"

definition TodoService_updateStatus ::
  "string \<Rightarrow> Store \<Rightarrow> int \<Rightarrow> TodoStatus \<Rightarrow> Store \<times> (error + Todo)" where
  "TodoService_updateStatus now s ident status =
     TodoService_update now s ident (no_fields\<lparr>tu_status := Some status\<rparr>)"

text \<open>
  The \<^verbatim>\<open>DELETE\<close> of a todo row. When the connection enforces foreign keys,
  \<^verbatim>\<open>parent_id ... ON DELETE CASCADE\<close> deletes the rows whose parent is deleted, and so
  on from those; when it does not, only the row with the id goes.
\<close>

definition child_of :: "int list \<Rightarrow> Todo \<Rightarrow> bool" where
  "child_of gone t = (case t_parent_id t of None \<Rightarrow> False | Some p \<Rightarrow> p \<in> set gone)"

function cascade_delete :: "int list \<Rightarrow> Todo list \<Rightarrow> Todo list" where
  "cascade_delete gone rows =
     (if list_ex (child_of gone) rows
      then cascade_delete (map t_id (filter (child_of gone) rows))
             (filter (\<lambda>t. \<not> child_of gone t) rows)
      else rows)"
  by pat_completeness auto
termination
proof (relation "measure (\<lambda>(gone, rows). length rows)")
  show "wf (measure (\<lambda>(gone, rows). length rows))" by simp
next
  fix gone :: "int list" and rows :: "Todo list"
  assume "list_ex (child_of gone) rows"
  then obtain t where "t \<in> set rows" "child_of gone t" by (auto simp: list_ex_iff)
  then have "length (filter (\<lambda>t. \<not> child_of gone t) rows) < length rows"
    by (intro length_filter_less [of t]) simp_all
  then show "((map t_id (filter (child_of gone) rows), filter (\<lambda>t. \<not> child_of gone t) rows),
      (gone, rows)) \<in> measure (\<lambda>(gone, rows). length rows)"
    by simp
qed

declare cascade_delete.simps [simp del]

definition TodoService_delete :: "Store \<Rightarrow> int \<Rightarrow> Store \<times> (error + int)" where
  "TodoService_delete s ident =
     (case TodoService_getById s ident of
        Inl e \<Rightarrow> (s, Inl e)
      | Inr _ \<Rightarrow>
          (save
             (s\<lparr>todos := (if foreign_keys s
                          then cascade_delete [ident] [t \<leftarrow> todos s. t_id t \<noteq> ident]
                          else [t \<leftarrow> todos s. t_id t \<noteq> ident])\<rparr>),
           Inr ident))"

section \<open>Reachable stores\<close>

text \<open>
  The mutating operations of the two services as commands. A store is reachable when a
  sequence of permitted commands leads to it from a database as \<^verbatim>\<open>createTestDb\<close> or
  \<^verbatim>\<open>getDb\<close> opens it: the database of the tests, a database with no file yet, or the
  file a reachable store was saved to. Each command runs at some time \<open>now\<close>.
\<close>

datatype command =
    Project_create ProjectCreateInput
  | Project_update int ProjectUpdateInput
  | Project_delete int
  | Milestone_create MilestoneCreateInput
  | Milestone_complete int bool
  | Milestone_delete int
  | Todo_create TodoCreateInput
  | Todo_createMany "TodoCreateInput list"
  | Todo_update int TodoUpdateInput
  | Todo_updateStatus int TodoStatus
  | Todo_delete int

fun exec :: "string \<Rightarrow> command \<Rightarrow> Store \<Rightarrow> Store" where
  "exec now (Project_create data) s = fst (ProjectService_create now s data)"
| "exec now (Project_update ident data) s = fst (ProjectService_update now s ident data)"
| "exec now (Project_delete ident) s = fst (ProjectService_delete s ident)"
| "exec now (Milestone_create data) s = fst (ProjectService_createMilestone now s data)"
| "exec now (Milestone_complete ident undo) s = fst (ProjectService_completeMilestone s ident undo)"
| "exec now (Milestone_delete ident) s = fst (ProjectService_deleteMilestone s ident)"
| "exec now (Todo_create data) s = fst (TodoService_create now s data)"
| "exec now (Todo_createMany items) s = fst (TodoService_createMany now s items)"
| "exec now (Todo_update ident data) s = fst (TodoService_update now s ident data)"
| "exec now (Todo_updateStatus ident status) s = fst (TodoService_updateStatus now s ident status)"
| "exec now (Todo_delete ident) s = fst (TodoService_delete s ident)"

inductive reachable_by :: "(command \<Rightarrow> bool) \<Rightarrow> Store \<Rightarrow> bool" for permitted where
  test_db: "reachable_by permitted createTestDb"
| new_db: "reachable_by permitted (getDb dbPath DB_PATH None)"
| reopened: "reachable_by permitted s \<Longrightarrow> reachable_by permitted (getDb dbPath DB_PATH (Some s))"
| step: "reachable_by permitted s \<Longrightarrow> permitted c \<Longrightarrow> reachable_by permitted (exec now c s)"

definition reachable :: "Store \<Rightarrow> bool" where
  "reachable s = reachable_by (\<lambda>c. True) s"

section \<open>Properties named by the specification\<close>

text \<open>
  The progress formula in the words of the specification: the exact ratio on a scale of
  0 to 100, rounded to the nearest integer with a half going up, and 0 without todos.
\<close>

definition progress_percent_spec :: "nat \<Rightarrow> nat \<Rightarrow> int" where
  "progress_percent_spec completed_tasks total_tasks =
     (if 0 < total_tasks
      then \<lfloor>(of_nat completed_tasks / of_nat total_tasks * 100 :: rat) + 1/2\<rfloor>
      else 0)"

definition progress_in_range :: "rat \<Rightarrow> rat \<Rightarrow> int \<Rightarrow> bool" where
  "progress_in_range total_tasks completed_tasks percent =
     (0 \<le> completed_tasks \<and> completed_tasks \<le> total_tasks \<and> 0 \<le> percent \<and> percent \<le> 100)"

definition project_progress_in_range :: "ProjectWithProgress \<Rightarrow> bool" where
  "project_progress_in_range pw =
     progress_in_range (p_total_tasks pw) (p_completed_tasks pw) (p_progress_percent pw)"

definition milestone_progress_in_range :: "MilestoneWithProgress \<Rightarrow> bool" where
  "milestone_progress_in_range mw =
     progress_in_range (m_total_tasks mw) (m_completed_tasks mw) (m_progress_percent mw)"

text \<open>
  Two facts of every reachable store: the ids of the todos are positive, and, while the
  connection enforces foreign keys, the project reference of a todo is null or the id of
  a stored project.
\<close>

definition store_inv :: "Store \<Rightarrow> bool" where
  "store_inv s =
     (0 \<le> seq_todos s \<and>
      list_all (\<lambda>t. 0 < t_id t \<and>
          (if foreign_keys s then ref_ok (t_project_id t) (map p_id (projects s)) else True))
        (todos s))"

text \<open>The hierarchy invariant of a todo row: a subtask has a parent, a task has none.\<close>

definition level_consistent :: "Todo \<Rightarrow> bool" where
  "level_consistent t =
     ((t_level t = subtask) = (t_parent_id t \<noteq> None) \<and>
      (t_level t = task) = (t_parent_id t = None))"

text \<open>A todo, or a task with its subtasks, that is neither the todo \<open>ident\<close> nor a direct child of it.\<close>

definition apart_from :: "int \<Rightarrow> 'a Todo_scheme \<Rightarrow> bool" where
  "apart_from ident t = (t_id t \<noteq> ident \<and> t_parent_id t \<noteq> Some ident)"

text \<open>
  A row after an update in the words of the specification: each supplied field has the
  supplied value (a date as the store holds it), every other field is as before, and
  the update timestamp is refreshed.
\<close>

definition project_changed_as_supplied ::
  "string \<Rightarrow> ProjectUpdateInput \<Rightarrow> Project \<Rightarrow> Project \<Rightarrow> bool" where
  "project_changed_as_supplied now data p p' =
     (p_id p' = p_id p \<and> p_created_at p' = p_created_at p \<and> p_updated_at p' = now \<and>
      p_name p' = (case pu_name data of None \<Rightarrow> p_name p | Some v \<Rightarrow> v) \<and>
      p_description p' = (case pu_description data of None \<Rightarrow> p_description p | Some v \<Rightarrow> v) \<and>
      p_status p' = (case pu_status data of None \<Rightarrow> p_status p | Some v \<Rightarrow> v))"

definition todo_changed_as_supplied ::
  "string \<Rightarrow> TodoUpdateInput \<Rightarrow> Todo \<Rightarrow> Todo \<Rightarrow> bool" where
  "todo_changed_as_supplied now data t t' =
     (t_id t' = t_id t \<and> t_level t' = t_level t \<and> t_created_at t' = t_created_at t \<and>
      t_updated_at t' = now \<and>
      t_title t' = (case tu_title data of None \<Rightarrow> t_title t | Some v \<Rightarrow> v) \<and>
      t_description t' = (case tu_description data of None \<Rightarrow> t_description t | Some v \<Rightarrow> v) \<and>
      t_status t' = (case tu_status data of None \<Rightarrow> t_status t | Some v \<Rightarrow> v) \<and>
      t_priority t' = (case tu_priority data of None \<Rightarrow> t_priority t | Some v \<Rightarrow> v) \<and>
      t_due_date t' = (case tu_due_date data of
                         None \<Rightarrow> t_due_date t | Some v \<Rightarrow> map_option numeric_affinity v) \<and>
      t_project_id t' = (case tu_project_id data of None \<Rightarrow> t_project_id t | Some v \<Rightarrow> v) \<and>
      t_parent_id t' = (case tu_parent_id data of None \<Rightarrow> t_parent_id t | Some v \<Rightarrow> v) \<and>
      t_milestone_id t' = (case tu_milestone_id data of None \<Rightarrow> t_milestone_id t | Some v \<Rightarrow> v))"

text \<open>
  The constraints of the schema on the fields an update of a todo supplies: the check of
  the priority and, when the connection enforces them, the foreign keys.
\<close>

definition update_accepted :: "Store \<Rightarrow> TodoUpdateInput \<Rightarrow> bool" where
  "update_accepted s data =
     ((case tu_priority data of None \<Rightarrow> True | Some p \<Rightarrow> 1 \<le> p \<and> p \<le> 5) \<and>
      (if foreign_keys s
       then supplied_ref_ok (tu_project_id data) (map p_id (projects s)) \<and>
            supplied_ref_ok (tu_parent_id data) (map t_id (todos s)) \<and>
            supplied_ref_ok (tu_milestone_id data) (map m_id (milestones s))
       else True))"

fun todo_command :: "command \<Rightarrow> bool" where
  "todo_command (Todo_create data) = True"
| "todo_command (Todo_createMany items) = True"
| "todo_command (Todo_update ident data) = True"
| "todo_command (Todo_updateStatus ident status) = True"
| "todo_command (Todo_delete ident) = True"
| "todo_command c = False"

text \<open>
  The commands that neither set the parent of an existing todo nor create a todo with
  the parent id 0.
\<close>

fun keeps_hierarchy :: "command \<Rightarrow> bool" where
  "keeps_hierarchy (Todo_update ident data) = (tu_parent_id data = None)"
| "keeps_hierarchy (Todo_create data) = (tc_parent_id data \<noteq> Some 0)"
| "keeps_hierarchy (Todo_createMany items) = list_all (\<lambda>data. tc_parent_id data \<noteq> Some 0) items"
| "keeps_hierarchy c = True"

section \<open>The scenario of the unit tests\<close>

text \<open>
  The store that the tests of \<^verbatim>\<open>services.test.ts\<close> build on the database of
  \<^verbatim>\<open>createTestDb\<close>: a project with a milestone, a task of the project, and two
  subtasks of the task, the first of them completed. The task and the first subtask are
  linked to the milestone.
\<close>

definition scenario :: "command list" where
  "scenario =
     [Project_create \<lparr>pc_name = ''P'', pc_description = None\<rparr>,
      Milestone_create \<lparr>mc_project_id = 1, mc_title = ''M1'', mc_target_date = ''2026-03-01''\<rparr>,
      Todo_create \<lparr>tc_title = ''T'', tc_description = None, tc_priority = None,
        tc_due_date = None, tc_project_id = Some 1, tc_parent_id = None,
        tc_milestone_id = Some 1\<rparr>,
      Todo_create \<lparr>tc_title = ''S1'', tc_description = None, tc_priority = None,
        tc_due_date = None, tc_project_id = None, tc_parent_id = Some 1,
        tc_milestone_id = Some 1\<rparr>,
      Todo_create \<lparr>tc_title = ''S2'', tc_description = None, tc_priority = Some 1,
        tc_due_date = Some ''2026-03-01'', tc_project_id = None, tc_parent_id = Some 1,
        tc_milestone_id = None\<rparr>,
      Todo_updateStatus 2 ts_completed]"

definition scenario_store :: Store where
  "scenario_store = foldl (\<lambda>s c. exec ''2026-02-01 09:00:00'' c s) createTestDb scenario"

text \<open>
  The same calls on the database of the server: \<^verbatim>\<open>index.ts\<close> opens it with \<^verbatim>\<open>getDb()\<close>,
  here with no \<^verbatim>\<open>DB_PATH\<close> and no file yet, so that it is saved to
  \<^verbatim>\<open>./data/todos.db\<close>.
\<close>

definition server_db :: Store where
  "server_db = getDb None None None"

definition server_store :: Store where
  "server_store = foldl (\<lambda>s c. exec ''2026-02-01 09:00:00'' c s) server_db scenario"

text \<open>Two tasks, and an update that makes the first the parent of the second.\<close>

definition reparenting :: "command list" where
  "reparenting =
     [Todo_create \<lparr>tc_title = ''A'', tc_description = None, tc_priority = None,
        tc_due_date = None, tc_project_id = None, tc_parent_id = None, tc_milestone_id = None\<rparr>,
      Todo_create \<lparr>tc_title = ''B'', tc_description = None, tc_priority = None,
        tc_due_date = None, tc_project_id = None, tc_parent_id = None, tc_milestone_id = None\<rparr>,
      Todo_update 2 (no_fields\<lparr>tu_parent_id := Some (Some 1)\<rparr>)]"

definition reparented_store :: Store where
  "reparented_store = foldl (\<lambda>s c. exec ''2026-02-01 09:00:00'' c s) createTestDb reparenting"

text \<open>A todo created with the parent id 0 on the database of the server.\<close>

definition parent_0 :: "command list" where
  "parent_0 =
     [Todo_create \<lparr>tc_title = ''X'', tc_description = None, tc_priority = None,
        tc_due_date = None, tc_project_id = None, tc_parent_id = Some 0, tc_milestone_id = None\<rparr>]"

definition parent_0_store :: Store where
  "parent_0_store = foldl (\<lambda>s c. exec ''2026-02-01 09:00:00'' c s) server_db parent_0"

text \<open>
  A project with forty tasks, the first twenty-three of them completed: the store after
  \<^verbatim>\<open>projectService.create\<close>, forty calls of \<^verbatim>\<open>todoService.create\<close> with the id of
  the project and twenty-three calls of \<^verbatim>\<open>todoService.updateStatus\<close> on the database
  of \<^verbatim>\<open>createTestDb\<close>.
\<close>

definition store_23_of_40 :: Store where
  "store_23_of_40 =
     \<lparr>projects = [\<lparr>p_id = 1, p_name = ''P'', p_description = None, p_status = ps_active,
          p_created_at = ''2026-02-01 09:00:00'', p_updated_at = ''2026-02-01 09:00:00''\<rparr>],
      milestones = [],
      todos = map (\<lambda>n. \<lparr>t_id = int n, t_title = ''T'', t_description = None,
          t_status = (if n \<le> 23 then ts_completed else ts_pending), t_priority = 3,
          t_due_date = None, t_project_id = Some 1, t_parent_id = None, t_milestone_id = None,
          t_level = task, t_created_at = ''2026-02-01 09:00:00'',
          t_updated_at = ''2026-02-01 09:00:00''\<rparr>) [1..<41],
      seq_projects = 1, seq_milestones = 0, seq_todos = 40,
      filePath = None, foreign_keys = True\<rparr>"

section \<open>Rounding to a double\<close>

lemma round_half_even_cases:
  "round_half_even x = \<lfloor>x\<rfloor> \<or> round_half_even x = \<lfloor>x\<rfloor> + 1"
  by (simp add: round_half_even_def Let_def)

lemma round_half_even_of_int [simp]: "round_half_even (of_int n) = n"
  by (simp add: round_half_even_def)

lemma round_half_even_numeral [simp]: "round_half_even (numeral k) = numeral k"
  using round_half_even_of_int [of "numeral k"] by simp

lemma round_half_even_eqI:
  assumes "of_int m - 1/2 < x" "x < of_int m + 1/2"
  shows "round_half_even x = m"
proof -
  have "m - 1 \<le> \<lfloor>x\<rfloor>" using assms(1) by (simp add: le_floor_iff)
  moreover have "\<lfloor>x\<rfloor> \<le> m" using assms(2) by (simp add: floor_le_iff)
  ultimately consider "\<lfloor>x\<rfloor> = m" | "\<lfloor>x\<rfloor> = m - 1" by linarith
  then show ?thesis
  proof cases
    case 1
    then show ?thesis using assms by (simp add: round_half_even_def Let_def)
  next
    case 2
    then show ?thesis using assms by (simp add: round_half_even_def Let_def)
  qed
qed

lemma round_half_even_mono:
  assumes "x \<le> y" shows "round_half_even x \<le> round_half_even y"
proof (cases "\<lfloor>x\<rfloor> = \<lfloor>y\<rfloor>")
  case True
  then show ?thesis using assms
    by (auto simp: round_half_even_def Let_def)
next
  case False
  with assms have "\<lfloor>x\<rfloor> + 1 \<le> \<lfloor>y\<rfloor>"
    using floor_mono [OF assms] by linarith
  moreover have "round_half_even x \<le> \<lfloor>x\<rfloor> + 1"
    using round_half_even_cases [of x] by linarith
  moreover have "\<lfloor>y\<rfloor> \<le> round_half_even y"
    using round_half_even_cases [of y] by linarith
  ultimately show ?thesis by linarith
qed

lemma ilog2_bounds:
  assumes "0 < x"
  shows "2 powi ilog2 x \<le> x" and "x < 2 powi (ilog2 x + 1)"
proof -
  obtain p q where pq: "quotient_of x = (p, q)" by (cases "quotient_of x")
  have q: "0 < q" using pq by (rule quotient_of_denom_pos)
  have x: "x = of_int p / of_int q" using pq by (rule quotient_of_div)
  have p: "0 < p" using assms q x by (simp add: zero_less_divide_iff)
  define bp bq where "bp = bitlen p" and "bq = bitlen q"
  have bp: "2 ^ nat (bp - 1) \<le> p" "p < 2 ^ nat bp" and bq: "2 ^ nat (bq - 1) \<le> q" "q < 2 ^ nat bq"
    using bitlen_bounds [OF p] bitlen_bounds [OF q] by (simp_all add: bp_def bq_def)
  have bp1: "1 \<le> bp" and bq1: "1 \<le> bq"
    using p q bitlen_eq_zero_iff [of p] bitlen_eq_zero_iff [of q] bitlen_nonneg [of p] bitlen_nonneg [of q]
    by (auto simp: bp_def bq_def simp flip: less_le_not_le)
  have P: "(2::rat) powi (bp - 1) \<le> of_int p" "of_int p < (2::rat) powi bp"
  proof -
    have "(of_int (2 ^ nat (bp - 1)) :: rat) \<le> of_int p" using bp(1) by (simp only: of_int_le_iff)
    then show "(2::rat) powi (bp - 1) \<le> of_int p" using bp1 by (simp add: power_int_nonneg_exp)
    have "(of_int p :: rat) < of_int (2 ^ nat bp)" using bp(2) by (simp only: of_int_less_iff)
    then show "of_int p < (2::rat) powi bp" using bp1 by (simp add: power_int_nonneg_exp)
  qed
  have Q: "(2::rat) powi (bq - 1) \<le> of_int q" "of_int q < (2::rat) powi bq"
  proof -
    have "(of_int (2 ^ nat (bq - 1)) :: rat) \<le> of_int q" using bq(1) by (simp only: of_int_le_iff)
    then show "(2::rat) powi (bq - 1) \<le> of_int q" using bq1 by (simp add: power_int_nonneg_exp)
    have "(of_int q :: rat) < of_int (2 ^ nat bq)" using bq(2) by (simp only: of_int_less_iff)
    then show "of_int q < (2::rat) powi bq" using bq1 by (simp add: power_int_nonneg_exp)
  qed
  have qpos: "(0::rat) < of_int q" and ppos: "(0::rat) < of_int p" using p q by simp_all
  have pw: "(0::rat) < 2 powi k" for k by simp
  have il: "ilog2 x = (if q * 2 ^ nat bp \<le> p * 2 ^ nat bq then bp - bq else bp - bq - 1)"
    by (simp add: ilog2_def pq bp_def bq_def Let_def)
  have cmp: "q * 2 ^ nat bp \<le> p * 2 ^ nat bq \<longleftrightarrow> (2::rat) powi bp / 2 powi bq \<le> x"
  proof -
    have "q * 2 ^ nat bp \<le> p * 2 ^ nat bq \<longleftrightarrow>
          (of_int (q * 2 ^ nat bp) :: rat) \<le> of_int (p * 2 ^ nat bq)"
      by (simp only: of_int_le_iff)
    also have "\<dots> \<longleftrightarrow> of_int q * (2::rat) powi bp \<le> of_int p * 2 powi bq"
      using bp1 bq1 by (simp add: power_int_nonneg_exp)
    also have "\<dots> \<longleftrightarrow> (2::rat) powi bp / 2 powi bq \<le> x"
      unfolding x using qpos pw [of bq] by (simp add: field_simps)
    finally show ?thesis .
  qed
  have lo: "(2::rat) powi (bp - 1) / 2 powi bq < x"
  proof -
    have "(2::rat) powi (bp - 1) / 2 powi bq < 2 powi (bp - 1) / of_int q"
      using Q(2) qpos pw [of "bp - 1"] by (simp add: divide_strict_left_mono)
    also have "\<dots> \<le> x" unfolding x using P(1) qpos by (simp add: divide_right_mono)
    finally show ?thesis .
  qed
  have hi: "x < (2::rat) powi bp / 2 powi (bq - 1)"
  proof -
    have "x < 2 powi bp / of_int q" unfolding x using P(2) qpos by (simp add: divide_strict_right_mono)
    also have "\<dots> \<le> 2 powi bp / 2 powi (bq - 1)"
      using Q(1) pw [of "bq - 1"] pw [of bp] qpos by (intro divide_left_mono) simp_all
    finally show ?thesis .
  qed
  have e2: "bp - bq - 1 = (bp - 1) - bq" and e3: "bp - bq + 1 = bp - (bq - 1)" by simp_all
  have d1: "(2::rat) powi bp / 2 powi bq = 2 powi (bp - bq)"
    by (rule power_int_diff [symmetric]) simp
  have d2: "(2::rat) powi (bp - 1) / 2 powi bq = 2 powi (bp - bq - 1)"
    unfolding e2 by (rule power_int_diff [symmetric]) simp
  have d3: "(2::rat) powi bp / 2 powi (bq - 1) = 2 powi (bp - bq + 1)"
    unfolding e3 by (rule power_int_diff [symmetric]) simp
  show "2 powi ilog2 x \<le> x"
    using cmp lo unfolding il d1 d2 by (auto simp: less_imp_le)
  show "x < 2 powi (ilog2 x + 1)"
    using cmp hi unfolding il d1 d3 by (auto simp: not_le)
qed

lemma pow2_less_cancel:
  assumes "(2::rat) powi a < 2 powi b" shows "a < b"
proof (rule ccontr)
  assume "\<not> a < b"
  then have "(2::rat) powi b \<le> 2 powi a" by (intro power_int_increasing) simp_all
  with assms show False by simp
qed

lemma ilog2_unique:
  assumes "0 < x" "2 powi k \<le> x" "x < 2 powi (k + 1)"
  shows "ilog2 x = k"
proof -
  have "(2::rat) powi ilog2 x < 2 powi (k + 1)"
    using ilog2_bounds(1) [OF assms(1)] assms(3) by linarith
  then have "ilog2 x < k + 1" by (rule pow2_less_cancel)
  moreover have "(2::rat) powi k < 2 powi (ilog2 x + 1)"
    using ilog2_bounds(2) [OF assms(1)] assms(2) by linarith
  then have "k < ilog2 x + 1" by (rule pow2_less_cancel)
  ultimately show ?thesis by linarith
qed

lemma ilog2_mono:
  assumes "0 < x" "x \<le> y" shows "ilog2 x \<le> ilog2 y"
proof -
  have "0 < y" using assms by linarith
  have "(2::rat) powi ilog2 x < 2 powi (ilog2 y + 1)"
    using ilog2_bounds(1) [OF assms(1)] ilog2_bounds(2) [OF \<open>0 < y\<close>] assms(2) by linarith
  then have "ilog2 x < ilog2 y + 1" by (rule pow2_less_cancel)
  then show ?thesis by linarith
qed

lemma significand_bounds:
  assumes "0 < x"
  shows "2 ^ 52 \<le> x * 2 powi (- (ilog2 x - 52))" and "x * 2 powi (- (ilog2 x - 52)) < 2 ^ 53"
proof -
  let ?k = "ilog2 x"
  have s: "(2::rat) powi (- (?k - 52)) = 2 ^ 52 / 2 powi ?k"
    using power_int_diff [of "2::rat" 52 ?k] by simp
  have s': "(2::rat) powi (?k + 1) = 2 * 2 powi ?k"
    by (simp add: power_int_add)
  have pw: "(0::rat) < 2 powi ?k" by simp
  show "2 ^ 52 \<le> x * 2 powi (- (ilog2 x - 52))"
    unfolding s using ilog2_bounds(1) [OF assms] pw by (simp add: field_simps)
  show "x * 2 powi (- (ilog2 x - 52)) < 2 ^ 53"
    unfolding s using ilog2_bounds(2) [OF assms] pw unfolding s' by (simp add: field_simps)
qed

lemma fl_pos_eq:
  "0 < x \<Longrightarrow> fl x = of_int (round_half_even (x * 2 powi (- (ilog2 x - 52)))) * 2 powi (ilog2 x - 52)"
  by (simp add: fl_def Let_def)

lemma fl_eqI:
  assumes "0 < x" "2 powi (e + 52) \<le> x" "x < 2 powi (e + 53)"
    and "round_half_even (x * 2 powi (- e)) = m"
  shows "fl x = of_int m * 2 powi e"
proof -
  have "ilog2 x = e + 52" using assms(1-3) by (intro ilog2_unique) (simp_all add: add.assoc)
  then show ?thesis using assms(1,4) by (simp add: fl_pos_eq)
qed

lemma fl_nearI:
  assumes "0 < x" "2 powi (e + 52) \<le> x" "x < 2 powi (e + 53)"
    and "of_int m - 1/2 < x * 2 powi (- e)" "x * 2 powi (- e) < of_int m + 1/2"
  shows "fl x = of_int m * 2 powi e"
  using assms(1-3) round_half_even_eqI [OF assms(4,5)] by (rule fl_eqI)

lemma fl_lower:
  assumes "0 < x" shows "2 powi ilog2 x \<le> fl x"
proof -
  let ?e = "ilog2 x - 52"
  have "round_half_even (of_int (2 ^ 52)) \<le> round_half_even (x * 2 powi (- ?e))"
    using significand_bounds(1) [OF assms] by (intro round_half_even_mono) simp
  then have "2 ^ 52 \<le> round_half_even (x * 2 powi (- ?e))"
    by (simp only: round_half_even_of_int)
  then have "(of_int (2 ^ 52) :: rat) \<le> of_int (round_half_even (x * 2 powi (- ?e)))"
    by (simp only: of_int_le_iff)
  then have "2 ^ 52 * 2 powi ?e \<le> fl x"
    using assms by (simp add: fl_pos_eq)
  moreover have "(2::rat) ^ 52 * 2 powi ?e = 2 powi ilog2 x"
    using power_int_add [of "2::rat" 52 ?e] by simp
  ultimately show ?thesis by simp
qed

lemma fl_upper:
  assumes "0 < x" shows "fl x \<le> 2 powi (ilog2 x + 1)"
proof -
  let ?e = "ilog2 x - 52"
  have "round_half_even (x * 2 powi (- ?e)) \<le> round_half_even (of_int (2 ^ 53))"
    using significand_bounds(2) [OF assms] by (intro round_half_even_mono) simp
  then have "round_half_even (x * 2 powi (- ?e)) \<le> 2 ^ 53"
    by (simp only: round_half_even_of_int)
  then have "(of_int (round_half_even (x * 2 powi (- ?e))) :: rat) \<le> of_int (2 ^ 53)"
    by (simp only: of_int_le_iff)
  then have "fl x \<le> 2 ^ 53 * 2 powi ?e"
    using assms by (simp add: fl_pos_eq)
  moreover have "(2::rat) powi (53 + ?e) = 2 powi 53 * 2 powi ?e"
    by (rule power_int_add) simp
  moreover have "53 + ?e = ilog2 x + 1" by simp
  ultimately show ?thesis by simp
qed

lemma fl_pos: "0 < x \<Longrightarrow> 0 < fl x"
  using fl_lower [of x] zero_less_power_int [of "2::rat" "ilog2 x"] by linarith

lemma fl_mono_pos:
  assumes "0 < x" "x \<le> y" shows "fl x \<le> fl y"
proof -
  have y: "0 < y" using assms by linarith
  have le: "ilog2 x \<le> ilog2 y" using assms by (rule ilog2_mono)
  show ?thesis
  proof (cases "ilog2 x = ilog2 y")
    case True
    let ?e = "ilog2 y - 52"
    have "x * 2 powi (- ?e) \<le> y * 2 powi (- ?e)"
      using assms(2) by (simp add: mult_right_mono)
    then have "round_half_even (x * 2 powi (- ?e)) \<le> round_half_even (y * 2 powi (- ?e))"
      by (rule round_half_even_mono)
    then have "(of_int (round_half_even (x * 2 powi (- ?e))) :: rat) * 2 powi ?e
        \<le> of_int (round_half_even (y * 2 powi (- ?e))) * 2 powi ?e"
      by (simp add: mult_right_mono)
    then show ?thesis using assms(1) y True by (simp add: fl_pos_eq)
  next
    case False
    with le have "ilog2 x + 1 \<le> ilog2 y" by linarith
    then have "(2::rat) powi (ilog2 x + 1) \<le> 2 powi ilog2 y"
      by (intro power_int_increasing) simp_all
    with fl_upper [OF assms(1)] fl_lower [OF y] show ?thesis by linarith
  qed
qed

lemma fl_zero [simp]: "fl 0 = 0"
  by (simp add: fl_def)

lemma fl_mono:
  assumes "0 \<le> x" "x \<le> y" shows "fl x \<le> fl y"
proof (cases "x = 0")
  case True
  then show ?thesis using assms fl_pos [of y] by (cases "y = 0") (simp_all add: less_imp_le)
next
  case False
  then show ?thesis using assms by (intro fl_mono_pos) simp_all
qed

lemma fl_nonneg: "0 \<le> x \<Longrightarrow> 0 \<le> fl x"
  using fl_mono [of 0 x] by simp

text \<open>
  What \<open>fl\<close> returns is a number with a significand of 53 bits, and it is within half a
  unit in the last place of its argument.
\<close>

lemma round_half_even_error: "\<bar>of_int (round_half_even x) - x\<bar> \<le> 1/2"
proof -
  have "of_int \<lfloor>x\<rfloor> \<le> x" "x < of_int \<lfloor>x\<rfloor> + 1" by linarith+
  then show ?thesis
    by (auto simp: round_half_even_def Let_def abs_le_iff not_less)
qed

lemma fl_representable:
  assumes "0 < x"
  shows "\<exists>m. fl x = of_int m * 2 powi (ilog2 x - 52) \<and> 2 ^ 52 \<le> m \<and> m \<le> 2 ^ 53"
proof -
  let ?e = "ilog2 x - 52"
  let ?m = "round_half_even (x * 2 powi (- ?e))"
  have "round_half_even (of_int (2 ^ 52)) \<le> ?m"
    using significand_bounds(1) [OF assms] by (intro round_half_even_mono) simp
  moreover have "?m \<le> round_half_even (of_int (2 ^ 53))"
    using significand_bounds(2) [OF assms] by (intro round_half_even_mono) simp
  ultimately have "2 ^ 52 \<le> ?m" "?m \<le> 2 ^ 53"
    by (simp_all only: round_half_even_of_int)
  then show ?thesis using fl_pos_eq [OF assms] by blast
qed

lemma fl_error:
  assumes "0 < x"
  shows "\<bar>fl x - x\<bar> \<le> 2 powi (ilog2 x - 53)"
proof -
  let ?e = "ilog2 x - 52"
  let ?y = "x * 2 powi (- ?e)"
  have p: "(0::rat) < 2 powi ?e" by simp
  have inv: "(2::rat) powi (- ?e) * 2 powi ?e = 1"
    using power_int_add [of "2::rat" "- ?e" ?e] by simp
  have x: "x = ?y * 2 powi ?e" using inv by (simp add: mult.assoc)
  have "fl x - x = (of_int (round_half_even ?y) - ?y) * 2 powi ?e"
    using fl_pos_eq [OF assms] inv by (simp add: algebra_simps)
  then have "\<bar>fl x - x\<bar> = \<bar>of_int (round_half_even ?y) - ?y\<bar> * 2 powi ?e"
    using p by (simp add: abs_mult)
  also have "\<dots> \<le> 1/2 * 2 powi ?e"
    using round_half_even_error [of ?y] p by (intro mult_right_mono) simp_all
  also have "1/2 * (2::rat) powi ?e = 2 powi (ilog2 x - 53)"
    using power_int_add [of "2::rat" "-1" ?e] by (simp add: power_int_minus)
  finally show ?thesis .
qed

lemma fl_1: "fl 1 = 1"
  using fl_eqI [of 1 "-52" "2 ^ 52"] by simp

lemma fl_2: "fl 2 = 2"
  using fl_eqI [of 2 "-51" "2 ^ 52"] by simp

lemma fl_3: "fl 3 = 3"
  using fl_eqI [of 3 "-51" "3 * 2 ^ 51"] by simp

lemma fl_100: "fl 100 = 100"
  using fl_eqI [of 100 "-46" "100 * 2 ^ 46"] by simp

lemma fl_half: "fl (1/2) = 1/2"
  using fl_eqI [of "1/2" "-53" "2 ^ 52"] by simp

lemma fl_50: "fl 50 = 50"
  using fl_eqI [of 50 "-47" "50 * 2 ^ 47"] by simp

lemma fl_23: "fl 23 = 23"
  using fl_eqI [of 23 "-48" "23 * 2 ^ 48"] by simp

lemma fl_40: "fl 40 = 40"
  using fl_eqI [of 40 "-47" "40 * 2 ^ 47"] by simp

lemma fl_23_40: "fl (23/40) = 5179139571476070 / 2 ^ 53"
  using fl_nearI [of "23/40" "-53" 5179139571476070] by simp

lemma fl_23_40_100: "fl (5179139571476070 / 2 ^ 53 * 100) = 8092405580431359 / 2 ^ 47"
  using fl_nearI [of "5179139571476070 / 2 ^ 53 * 100" "-47" 8092405580431359] by simp

lemma Math_round_eqI:
  assumes "of_int n - 1/2 \<le> x" "x < of_int n + 1/2"
  shows "Math_round x = n"
  unfolding Math_round_def using assms by (intro floor_unique) simp_all

lemma percent_23_40: "Math_round (fl (fl (23/40) * 100)) = 57"
  unfolding fl_23_40 fl_23_40_100 by (rule Math_round_eqI) simp_all

lemma fl_third: "fl (1/3) = 6004799503160661 / 2 ^ 54"
  using fl_nearI [of "1/3" "-54" 6004799503160661] by simp

lemma fl_third_100: "fl (6004799503160661 / 2 ^ 54 * 100) = 4691249611844266 / 2 ^ 47"
  using fl_nearI [of "6004799503160661 / 2 ^ 54 * 100" "-47" 4691249611844266] by simp

lemma percent_1_3: "Math_round (fl (fl (1/3) * 100)) = 33"
  unfolding fl_third fl_third_100 by (rule Math_round_eqI) simp_all

lemma percent_1_2: "Math_round (fl (fl (1/2) * 100)) = 50"
  unfolding fl_half by (simp add: fl_50) (rule Math_round_eqI, simp_all)

lemma Number_of_count_nonneg: "0 \<le> Number_of_count n"
  unfolding Number_of_count_def by (rule fl_nonneg) simp

lemma Number_of_count_mono: "m \<le> n \<Longrightarrow> Number_of_count m \<le> Number_of_count n"
  unfolding Number_of_count_def by (rule fl_mono) simp_all

lemma Number_of_count_pos_iff: "0 < Number_of_count n \<longleftrightarrow> 0 < n"
proof (cases "n = 0")
  case True
  then show ?thesis by (simp add: Number_of_count_def)
next
  case False
  then have "0 < fl (of_nat n)" by (intro fl_pos) simp
  with False show ?thesis by (simp add: Number_of_count_def)
qed

lemma percent_bounds:
  assumes "0 \<le> c" "c \<le> t" "0 < t"
  shows "0 \<le> Math_round (fl (fl (c / t) * 100))" and "Math_round (fl (fl (c / t) * 100)) \<le> 100"
proof -
  have q: "0 \<le> c / t" "c / t \<le> 1" using assms by simp_all
  have r: "0 \<le> fl (c / t)" "fl (c / t) \<le> 1"
    using fl_nonneg [OF q(1)] fl_mono [OF q] by (simp_all add: fl_1)
  then have h: "0 \<le> fl (c / t) * 100" "fl (c / t) * 100 \<le> 100" by simp_all
  have p: "0 \<le> fl (fl (c / t) * 100)" "fl (fl (c / t) * 100) \<le> 100"
    using fl_nonneg [OF h(1)] fl_mono [OF h] by (simp_all add: fl_100)
  show "0 \<le> Math_round (fl (fl (c / t) * 100))"
    unfolding Math_round_def using p(1) by (simp add: le_floor_iff)
  show "Math_round (fl (fl (c / t) * 100)) \<le> 100"
    unfolding Math_round_def using p(2) by (simp add: floor_le_iff)
qed

lemma progress_in_range_counts:
  assumes "c \<le> t"
  shows "progress_in_range (Number_of_count t) (Number_of_count c)
     (if 0 < Number_of_count t
      then Math_round (fl (fl (Number_of_count c / Number_of_count t) * 100)) else 0)"
  unfolding progress_in_range_def
  using percent_bounds [of "Number_of_count c" "Number_of_count t"]
    Number_of_count_nonneg [of c] Number_of_count_mono [OF assms]
  by simp

lemma attachProgress_fields:
  "p_total_tasks (attachProgress s p) =
     Number_of_count (length [t \<leftarrow> todos s. t_project_id t = Some (p_id p)])"
  "p_completed_tasks (attachProgress s p) =
     Number_of_count (length [t \<leftarrow> todos s. t_project_id t = Some (p_id p) \<and> t_status t = ts_completed])"
  "p_progress_percent (attachProgress s p) =
     (if 0 < Number_of_count (length [t \<leftarrow> todos s. t_project_id t = Some (p_id p)])
      then Math_round (fl (fl (Number_of_count
               (length [t \<leftarrow> todos s. t_project_id t = Some (p_id p) \<and> t_status t = ts_completed])
             / Number_of_count (length [t \<leftarrow> todos s. t_project_id t = Some (p_id p)])) * 100))
      else 0)"
  "Project.truncate (attachProgress s p) = p"
  by (simp_all add: attachProgress_def Let_def Project.defs ProjectWithProgress.defs)

lemma attachMilestoneProgress_fields:
  "m_total_tasks (attachMilestoneProgress s m) =
     Number_of_count (length [t \<leftarrow> todos s. t_milestone_id t = Some (m_id m)])"
  "m_completed_tasks (attachMilestoneProgress s m) =
     Number_of_count (length [t \<leftarrow> todos s. t_milestone_id t = Some (m_id m) \<and> t_status t = ts_completed])"
  "m_progress_percent (attachMilestoneProgress s m) =
     (if 0 < Number_of_count (length [t \<leftarrow> todos s. t_milestone_id t = Some (m_id m)])
      then Math_round (fl (fl (Number_of_count
               (length [t \<leftarrow> todos s. t_milestone_id t = Some (m_id m) \<and> t_status t = ts_completed])
             / Number_of_count (length [t \<leftarrow> todos s. t_milestone_id t = Some (m_id m)])) * 100))
      else 0)"
  "Milestone.truncate (attachMilestoneProgress s m) = m"
  by (simp_all add: attachMilestoneProgress_def Let_def Milestone.defs MilestoneWithProgress.defs)

lemma attachProgress_row [simp]:
  "p_id (attachProgress s p) = p_id p"
  "p_name (attachProgress s p) = p_name p"
  "p_description (attachProgress s p) = p_description p"
  "p_status (attachProgress s p) = p_status p"
  "p_created_at (attachProgress s p) = p_created_at p"
  "p_updated_at (attachProgress s p) = p_updated_at p"
  by (simp_all add: attachProgress_def Let_def Project.defs ProjectWithProgress.defs)

lemma attachMilestoneProgress_row [simp]:
  "m_id (attachMilestoneProgress s m) = m_id m"
  "m_project_id (attachMilestoneProgress s m) = m_project_id m"
  "m_title (attachMilestoneProgress s m) = m_title m"
  "m_target_date (attachMilestoneProgress s m) = m_target_date m"
  "m_status (attachMilestoneProgress s m) = m_status m"
  "m_created_at (attachMilestoneProgress s m) = m_created_at m"
  by (simp_all add: attachMilestoneProgress_def Let_def Milestone.defs MilestoneWithProgress.defs)

lemma length_filter_conj_le: "length [x \<leftarrow> xs. P x \<and> Q x] \<le> length [x \<leftarrow> xs. P x]"
  by (induction xs) auto

lemma attachProgress_in_range: "project_progress_in_range (attachProgress s p)"
  unfolding project_progress_in_range_def attachProgress_fields
  by (rule progress_in_range_counts) (rule length_filter_conj_le)

lemma attachMilestoneProgress_in_range: "milestone_progress_in_range (attachMilestoneProgress s m)"
  unfolding milestone_progress_in_range_def attachMilestoneProgress_fields
  by (rule progress_in_range_counts) (rule length_filter_conj_le)

section \<open>Saving the database\<close>

lemma save_sel [simp]:
  "projects (save s) = projects s" "milestones (save s) = milestones s"
  "todos (save s) = todos s" "seq_projects (save s) = seq_projects s"
  "seq_milestones (save s) = seq_milestones s" "seq_todos (save s) = seq_todos s"
  "filePath (save s) = filePath s"
  by (simp_all add: save_def Database_export_def split: option.splits)

lemma save_foreign_keys: "foreign_keys (save s) \<Longrightarrow> foreign_keys s"
  by (simp add: save_def Database_export_def split: option.splits if_splits)

lemma save_foreign_keys_off [simp]: "\<not> foreign_keys s \<Longrightarrow> \<not> foreign_keys (save s)"
  using save_foreign_keys by blast

lemma save_idem [simp]: "save (save s) = save s"
  by (simp add: save_def Database_export_def split: option.splits)

lemma save_memory: "filePath s = None \<Longrightarrow> save s = s"
  by (simp add: save_def)

lemma save_file:
  "filePath s = Some path \<Longrightarrow> path \<noteq> [] \<Longrightarrow> save s = s\<lparr>foreign_keys := False\<rparr>"
  by (simp add: save_def Database_export_def)

lemma save_tables:
  "save (s\<lparr>projects := ps\<rparr>) = (save s)\<lparr>projects := ps\<rparr>"
  "save (s\<lparr>milestones := ms\<rparr>) = (save s)\<lparr>milestones := ms\<rparr>"
  "save (s\<lparr>todos := ts\<rparr>) = (save s)\<lparr>todos := ts\<rparr>"
  "save (s\<lparr>seq_projects := n\<rparr>) = (save s)\<lparr>seq_projects := n\<rparr>"
  "save (s\<lparr>seq_milestones := n\<rparr>) = (save s)\<lparr>seq_milestones := n\<rparr>"
  "save (s\<lparr>seq_todos := n\<rparr>) = (save s)\<lparr>seq_todos := n\<rparr>"
  by (simp_all add: save_def Database_export_def split: option.splits)

lemma createTestDb_eq:
  "createTestDb = \<lparr>projects = [], milestones = [], todos = [], seq_projects = 0,
     seq_milestones = 0, seq_todos = 0, filePath = None, foreign_keys = True\<rparr>"
  by (simp add: createTestDb_def initTables_def pragma_foreign_keys_ON_def new_Database_def
      save_def)

lemma getDb_tables:
  "todos (getDb dbPath DB_PATH None) = []" "seq_todos (getDb dbPath DB_PATH None) = 0"
  "projects (getDb dbPath DB_PATH None) = []" "milestones (getDb dbPath DB_PATH None) = []"
  by (simp_all add: getDb_def initTables_def pragma_foreign_keys_ON_def new_Database_def Let_def)

lemma getDb_reopened:
  "getDb dbPath DB_PATH (Some s) = getDb dbPath DB_PATH None \<or>
   (todos (getDb dbPath DB_PATH (Some s)) = todos s \<and>
    projects (getDb dbPath DB_PATH (Some s)) = projects s \<and>
    milestones (getDb dbPath DB_PATH (Some s)) = milestones s \<and>
    seq_todos (getDb dbPath DB_PATH (Some s)) = seq_todos s \<and>
    \<not> foreign_keys (getDb dbPath DB_PATH (Some s)))"
  by (simp add: getDb_def initTables_def pragma_foreign_keys_ON_def new_Database_def Let_def
      save_def Database_export_def or_else_def split: option.splits)

lemma server_db_eq:
  "server_db = \<lparr>projects = [], milestones = [], todos = [], seq_projects = 0,
     seq_milestones = 0, seq_todos = 0, filePath = Some ''./data/todos.db'',
     foreign_keys = False\<rparr>"
  by (simp add: server_db_def getDb_def initTables_def pragma_foreign_keys_ON_def
      new_Database_def or_else_def save_def Database_export_def Let_def)

section \<open>ProjectService\<close>

lemma find_None_iff_ids: "find (\<lambda>x. f x = i) xs = None \<longleftrightarrow> i \<notin> f ` set xs"
  by (auto simp: find_None_iff)

lemma find_Some_ids: "i \<in> f ` set xs \<Longrightarrow> \<exists>x. find (\<lambda>x. f x = i) xs = Some x \<and> x \<in> set xs \<and> f x = i"
  by (induction xs) auto

lemma find_SomeD: "find P xs = Some x \<Longrightarrow> x \<in> set xs \<and> P x"
  by (auto simp: find_Some_iff)

lemma find_map_update:
  assumes "\<And>x. f (g x) = f x"
  shows "find (\<lambda>x. f x = i) (map (\<lambda>x. if f x = i then g x else x) xs)
         = map_option g (find (\<lambda>x. f x = i) xs)"
  using assms by (induction xs) auto


lemma ProjectService_getById_Inr:
  "ProjectService_getById s ident = Inr pw \<Longrightarrow>
     \<exists>p \<in> set (projects s). p_id p = ident \<and> pw = attachProgress s p"
  by (auto simp: ProjectService_getById_def split: option.splits dest: find_SomeD)

lemma ProjectService_getById_in_range:
  "ProjectService_getById s ident = Inr pw \<Longrightarrow> project_progress_in_range pw"
  by (auto dest!: ProjectService_getById_Inr simp: attachProgress_in_range)

lemma ProjectService_getMilestoneById_Inr:
  "ProjectService_getMilestoneById s ident = Inr mw \<Longrightarrow>
     \<exists>m \<in> set (milestones s). m_id m = ident \<and> mw = attachMilestoneProgress s m"
  by (auto simp: ProjectService_getMilestoneById_def split: option.splits dest: find_SomeD)

lemma ProjectService_getMilestoneById_in_range:
  "ProjectService_getMilestoneById s ident = Inr mw \<Longrightarrow> milestone_progress_in_range mw"
  by (auto dest!: ProjectService_getMilestoneById_Inr simp: attachMilestoneProgress_in_range)

lemma ProjectService_create_in_range:
  "snd (ProjectService_create now s data) = Inr pw \<Longrightarrow> project_progress_in_range pw"
  by (auto simp: ProjectService_create_def Let_def dest: ProjectService_getById_in_range)

lemma ProjectService_update_in_range:
  "snd (ProjectService_update now s ident data) = Inr pw \<Longrightarrow> project_progress_in_range pw"
  by (auto simp: ProjectService_update_def Let_def split: sum.splits
      dest: ProjectService_getById_in_range)

lemma ProjectService_getMilestones_in_range:
  "ProjectService_getMilestones s ident = Inr ms \<Longrightarrow> list_all milestone_progress_in_range ms"
  by (auto simp: ProjectService_getMilestones_def list_all_iff attachMilestoneProgress_in_range
      split: sum.splits)

lemma ProjectService_createMilestone_in_range:
  "snd (ProjectService_createMilestone now s data) = Inr mw \<Longrightarrow> milestone_progress_in_range mw"
  by (auto simp: ProjectService_createMilestone_def Let_def split: sum.splits
      dest: ProjectService_getMilestoneById_in_range)

lemma ProjectService_completeMilestone_in_range:
  "snd (ProjectService_completeMilestone s ident undo) = Inr mw \<Longrightarrow> milestone_progress_in_range mw"
  by (auto simp: ProjectService_completeMilestone_def Let_def split: sum.splits
      dest: ProjectService_getMilestoneById_in_range)

text \<open>
  Claim C10. Every record with progress that an operation of \<^verbatim>\<open>ProjectService\<close> returns
  (a project from \<^verbatim>\<open>getAll\<close>, \<^verbatim>\<open>getById\<close>, \<^verbatim>\<open>create\<close>, \<^verbatim>\<open>update\<close>; a milestone from
  \<^verbatim>\<open>getMilestones\<close>, \<^verbatim>\<open>getMilestoneById\<close>, \<^verbatim>\<open>createMilestone\<close>, \<^verbatim>\<open>completeMilestone\<close>)
  has \<open>0 \<le> completed_tasks \<le> total_tasks\<close> and \<open>0 \<le> progress_percent \<le> 100\<close>. The
  numbers are the doubles the code computes.
\<close>

theorem progress_always_in_range:
  "list_all project_progress_in_range (ProjectService_getAll s status) \<and>
   (\<forall>pw. ProjectService_getById s ident = Inr pw \<longrightarrow> project_progress_in_range pw) \<and>
   (\<forall>pw. snd (ProjectService_create now s pdata) = Inr pw \<longrightarrow> project_progress_in_range pw) \<and>
   (\<forall>pw. snd (ProjectService_update now s ident udata) = Inr pw \<longrightarrow> project_progress_in_range pw) \<and>
   (\<forall>ms. ProjectService_getMilestones s ident = Inr ms \<longrightarrow> list_all milestone_progress_in_range ms) \<and>
   (\<forall>mw. ProjectService_getMilestoneById s ident = Inr mw \<longrightarrow> milestone_progress_in_range mw) \<and>
   (\<forall>mw. snd (ProjectService_createMilestone now s mdata) = Inr mw \<longrightarrow> milestone_progress_in_range mw) \<and>
   (\<forall>mw. snd (ProjectService_completeMilestone s ident undo) = Inr mw \<longrightarrow> milestone_progress_in_range mw)"
proof -
  have "list_all project_progress_in_range (ProjectService_getAll s status)"
    by (simp add: ProjectService_getAll_def list_all_iff attachProgress_in_range)
  then show ?thesis
    by (intro conjI allI impI)
      (auto intro: ProjectService_getById_in_range ProjectService_create_in_range
        ProjectService_update_in_range ProjectService_getMilestones_in_range
        ProjectService_getMilestoneById_in_range ProjectService_createMilestone_in_range
        ProjectService_completeMilestone_in_range)
qed

text \<open>
  Claim C8. For an id that no stored project has, \<^verbatim>\<open>ProjectService.getById\<close> fails with the
  404 error \<^verbatim>\<open>PROJECT_NOT_FOUND\<close>, and for an id that no stored todo has,
  \<^verbatim>\<open>TodoService.getById\<close> fails with the 404 error \<^verbatim>\<open>TODO_NOT_FOUND\<close>. A success is
  never an empty value: it is the stored row with that id (for a project, with its progress).
\<close>

theorem getById_NotFound:
  "(ident \<notin> p_id ` set (projects s) \<longrightarrow>
      ProjectService_getById s ident = Inl (ServiceError 404 ''PROJECT_NOT_FOUND'')) \<and>
   (ident \<notin> t_id ` set (todos s) \<longrightarrow>
      TodoService_getById s ident = Inl (ServiceError 404 ''TODO_NOT_FOUND'')) \<and>
   (\<forall>pw. ProjectService_getById s ident = Inr pw \<longrightarrow>
      (\<exists>p \<in> set (projects s). p_id p = ident \<and> pw = attachProgress s p)) \<and>
   (\<forall>t. TodoService_getById s ident = Inr t \<longrightarrow> t \<in> set (todos s) \<and> t_id t = ident)"
  by (auto simp: ProjectService_getById_def TodoService_getById_def find_None_iff
      split: option.splits dest: find_SomeD)

lemma attachMilestoneProgress_cong:
  "todos s' = todos s \<Longrightarrow> attachMilestoneProgress s' m = attachMilestoneProgress s m"
  by (simp add: attachMilestoneProgress_def)


lemma numeric_affinity_date:
  "numeric_affinity ''2026-03-01'' = SqlText ''2026-03-01''"
  by (simp add: numeric_affinity_def sqlite3AtoF_def strip_sign_def Isspace_def Isdigit_def
      Let_def)

lemma numeric_affinity_number:
  "numeric_affinity ''007'' = SqlInteger 7"
  by (simp add: numeric_affinity_def sqlite3AtoF_def strip_sign_def Isspace_def Isdigit_def
      digits_value_def Let_def)

lemmas service_defs =
  ProjectService_create_def ProjectService_getById_def ProjectService_createMilestone_def
  ProjectService_getMilestoneById_def TodoService_create_def TodoService_getById_def
  insert_todo_def todo_row_def TodoService_updateStatus_def TodoService_update_def update_todo_def
  apply_todo_update_def no_fields_def ref_ok_def supplied_ref_ok_def next_rowid_def
  createTestDb_eq server_db_eq save_def Database_export_def numeric_affinity_date

lemma scenario_store_eq:
  "scenario_store =
     \<lparr>projects = [\<lparr>p_id = 1, p_name = ''P'', p_description = None, p_status = ps_active,
          p_created_at = ''2026-02-01 09:00:00'', p_updated_at = ''2026-02-01 09:00:00''\<rparr>],
      milestones = [\<lparr>m_id = 1, m_project_id = 1, m_title = ''M1'', m_target_date = SqlText ''2026-03-01'',
          m_status = ms_pending, m_created_at = ''2026-02-01 09:00:00''\<rparr>],
      todos = [
        \<lparr>t_id = 1, t_title = ''T'', t_description = None, t_status = ts_pending, t_priority = 3,
          t_due_date = None, t_project_id = Some 1, t_parent_id = None, t_milestone_id = Some 1,
          t_level = task, t_created_at = ''2026-02-01 09:00:00'',
          t_updated_at = ''2026-02-01 09:00:00''\<rparr>,
        \<lparr>t_id = 2, t_title = ''S1'', t_description = None, t_status = ts_completed, t_priority = 3,
          t_due_date = None, t_project_id = Some 1, t_parent_id = Some 1, t_milestone_id = Some 1,
          t_level = subtask, t_created_at = ''2026-02-01 09:00:00'',
          t_updated_at = ''2026-02-01 09:00:00''\<rparr>,
        \<lparr>t_id = 3, t_title = ''S2'', t_description = None, t_status = ts_pending, t_priority = 1,
          t_due_date = Some (SqlText ''2026-03-01''), t_project_id = Some 1, t_parent_id = Some 1,
          t_milestone_id = None, t_level = subtask, t_created_at = ''2026-02-01 09:00:00'',
          t_updated_at = ''2026-02-01 09:00:00''\<rparr>],
      seq_projects = 1, seq_milestones = 1, seq_todos = 3,
      filePath = None, foreign_keys = True\<rparr>"
  by (simp add: scenario_store_def scenario_def service_defs Let_def)

lemma server_store_eq:
  "server_store = scenario_store\<lparr>filePath := Some ''./data/todos.db'', foreign_keys := False\<rparr>"
  unfolding scenario_store_eq
  by (simp add: server_store_def scenario_def service_defs Let_def)

lemma Number_of_count_small:
  "Number_of_count 0 = 0" "Number_of_count 1 = 1" "Number_of_count 2 = 2"
  "Number_of_count 3 = 3" "Number_of_count 23 = 23" "Number_of_count 40 = 40"
  by (simp_all add: Number_of_count_def fl_1 fl_2 fl_3 fl_23 fl_40)

lemma Number_of_count_Suc:
  "Number_of_count (Suc 0) = 1" "Number_of_count (Suc (Suc 0)) = 2"
  "Number_of_count (Suc (Suc (Suc 0))) = 3"
  using Number_of_count_small(2-4) by (simp_all add: numeral_2_eq_2 numeral_3_eq_3)

text \<open>
  Witness of C10: in the scenario of the tests each of the eight operations returns, and
  what it returns is in range.
\<close>

theorem progress_always_in_range_witness:
  "list_all project_progress_in_range (ProjectService_getAll scenario_store None) \<and>
   (case ProjectService_getById scenario_store 1 of
      Inl e \<Rightarrow> False | Inr pw \<Rightarrow> project_progress_in_range pw) \<and>
   (case snd (ProjectService_create ''2026-02-02 09:00:00'' scenario_store
                \<lparr>pc_name = ''Q'', pc_description = None\<rparr>) of
      Inl e \<Rightarrow> False | Inr pw \<Rightarrow> project_progress_in_range pw) \<and>
   (case snd (ProjectService_update ''2026-02-02 09:00:00'' scenario_store 1
                \<lparr>pu_name = Some ''R'', pu_description = None, pu_status = None\<rparr>) of
      Inl e \<Rightarrow> False | Inr pw \<Rightarrow> project_progress_in_range pw) \<and>
   (case ProjectService_getMilestones scenario_store 1 of
      Inl e \<Rightarrow> False | Inr ms \<Rightarrow> ms \<noteq> [] \<and> list_all milestone_progress_in_range ms) \<and>
   (case ProjectService_getMilestoneById scenario_store 1 of
      Inl e \<Rightarrow> False | Inr mw \<Rightarrow> milestone_progress_in_range mw) \<and>
   (case snd (ProjectService_createMilestone ''2026-02-02 09:00:00'' scenario_store
                \<lparr>mc_project_id = 1, mc_title = ''M2'', mc_target_date = ''2026-04-01''\<rparr>) of
      Inl e \<Rightarrow> False | Inr mw \<Rightarrow> milestone_progress_in_range mw) \<and>
   (case snd (ProjectService_completeMilestone scenario_store 1 False) of
      Inl e \<Rightarrow> False | Inr mw \<Rightarrow> milestone_progress_in_range mw)"
proof -
  let ?pc = "\<lparr>pc_name = ''Q'', pc_description = None\<rparr>"
  let ?pu = "\<lparr>pu_name = Some ''R'', pu_description = None, pu_status = None\<rparr>"
  let ?mc = "\<lparr>mc_project_id = 1, mc_title = ''M2'', mc_target_date = ''2026-04-01''\<rparr>"
  have 1: "\<exists>pw. ProjectService_getById scenario_store 1 = Inr pw"
    by (simp add: scenario_store_eq ProjectService_getById_def)
  have 2: "\<exists>pw. snd (ProjectService_create ''2026-02-02 09:00:00'' scenario_store ?pc) = Inr pw"
    by (simp add: scenario_store_eq ProjectService_create_def ProjectService_getById_def
        next_rowid_def Let_def)
  have 3: "\<exists>pw. snd (ProjectService_update ''2026-02-02 09:00:00'' scenario_store 1 ?pu) = Inr pw"
    by (simp add: scenario_store_eq ProjectService_update_def ProjectService_getById_def
        apply_project_update_def Let_def)
  have 4: "\<exists>m ms. ProjectService_getMilestones scenario_store 1 = Inr (m # ms)"
    by (simp add: scenario_store_eq ProjectService_getMilestones_def ProjectService_getById_def)
  have 5: "\<exists>mw. ProjectService_getMilestoneById scenario_store 1 = Inr mw"
    by (simp add: scenario_store_eq ProjectService_getMilestoneById_def)
  have 6: "\<exists>mw. snd (ProjectService_createMilestone ''2026-02-02 09:00:00'' scenario_store ?mc) = Inr mw"
    by (simp add: scenario_store_eq ProjectService_createMilestone_def ProjectService_getById_def
        ProjectService_getMilestoneById_def next_rowid_def Let_def)
  have 7: "\<exists>mw. snd (ProjectService_completeMilestone scenario_store 1 False) = Inr mw"
    by (simp add: scenario_store_eq ProjectService_completeMilestone_def
        ProjectService_getMilestoneById_def Let_def)
  show ?thesis
    using progress_always_in_range [of scenario_store None 1 "''2026-02-02 09:00:00''" ?pc ?pu ?mc False]
      1 2 3 4 5 6 7
    by (auto split: sum.splits)
qed

text \<open>Witness of C8: the id 999 in the scenario of the tests, and the ids 1 and 2 that exist.\<close>

theorem getById_NotFound_witness:
  "999 \<notin> p_id ` set (projects scenario_store) \<and>
   ProjectService_getById scenario_store 999 = Inl (ServiceError 404 ''PROJECT_NOT_FOUND'') \<and>
   999 \<notin> t_id ` set (todos scenario_store) \<and>
   TodoService_getById scenario_store 999 = Inl (ServiceError 404 ''TODO_NOT_FOUND'') \<and>
   (case ProjectService_getById scenario_store 1 of
      Inl e \<Rightarrow> False | Inr pw \<Rightarrow> p_id pw = 1 \<and> p_name pw = ''P'') \<and>
   (case TodoService_getById scenario_store 2 of
      Inl e \<Rightarrow> False | Inr t \<Rightarrow> t_id t = 2 \<and> t_title t = ''S1'')"
proof -
  have a: "999 \<notin> p_id ` set (projects scenario_store)" "999 \<notin> t_id ` set (todos scenario_store)"
    by (simp_all add: scenario_store_eq)
  have b: "ProjectService_getById scenario_store 1 =
      Inr (attachProgress scenario_store (hd (projects scenario_store)))"
    by (simp add: scenario_store_eq ProjectService_getById_def)
  have b': "p_name (attachProgress scenario_store (hd (projects scenario_store))) = ''P''"
    by (simp add: scenario_store_eq)
  have c: "TodoService_getById scenario_store 2 = Inr (todos scenario_store ! 1)"
    by (simp add: scenario_store_eq TodoService_getById_def)
  have c': "t_title (todos scenario_store ! 1) = ''S1''"
    by (simp add: scenario_store_eq)
  have d: "ProjectService_getById scenario_store 999 = Inl (ServiceError 404 ''PROJECT_NOT_FOUND'')"
    "TodoService_getById scenario_store 999 = Inl (ServiceError 404 ''TODO_NOT_FOUND'')"
    using getById_NotFound [of 999 scenario_store] a by blast+
  obtain p where p: "p_id p = 1"
      "attachProgress scenario_store (hd (projects scenario_store)) = attachProgress scenario_store p"
    using getById_NotFound [of 1 scenario_store] b by auto
  have "p_id (attachProgress scenario_store (hd (projects scenario_store)))
      = p_id (attachProgress scenario_store p)"
    by (simp only: p(2))
  then have e: "p_id (attachProgress scenario_store (hd (projects scenario_store))) = 1"
    using p(1) by simp
  have f: "t_id (todos scenario_store ! 1) = 2"
    using getById_NotFound [of 2 scenario_store] c by auto
  show ?thesis
    unfolding b c using a d e f b' c' by simp
qed


text \<open>
  The examples of the specification and of the tests hold: in the scenario one of three
  todos of the project is completed, which gives 33, and one of two todos of the milestone,
  which gives 50; a project without todos has progress 0.
\<close>

lemma progress_percent_examples:
  "(case ProjectService_getById scenario_store 1 of
      Inl e \<Rightarrow> None
    | Inr pw \<Rightarrow> Some (p_total_tasks pw, p_completed_tasks pw, p_progress_percent pw))
     = Some (3, 1, 33)"
  "(case ProjectService_getMilestoneById scenario_store 1 of
      Inl e \<Rightarrow> None
    | Inr mw \<Rightarrow> Some (m_total_tasks mw, m_completed_tasks mw, m_progress_percent mw))
     = Some (2, 1, 50)"
  by (simp_all add: scenario_store_eq ProjectService_getById_def
      ProjectService_getMilestoneById_def attachProgress_fields attachMilestoneProgress_fields
      Number_of_count_Suc percent_1_3 percent_1_2)

lemma progress_percent_no_todos:
  assumes "[t \<leftarrow> todos s. t_project_id t = Some (p_id p)] = []"
  shows "p_progress_percent (attachProgress s p) = 0"
  using assms by (simp add: attachProgress_fields Number_of_count_small)

text \<open>
  Claim C1, which the code does not meet. The specification gives the progress as the exact
  ratio on the scale of 0 to 100, rounded to the nearest integer with a half going up. The
  code divides and multiplies in double arithmetic before \<^verbatim>\<open>Math.round\<close>: with 23 of 40
  todos completed the quotient 0.575 is not a double, the product is 57.49999999999999 and
  the progress is 57, where the exact 57.5 rounds to 58.
\<close>

theorem progress_percent_23_of_40:
  "(case ProjectService_getById store_23_of_40 1 of
      Inl e \<Rightarrow> None
    | Inr pw \<Rightarrow> Some (p_total_tasks pw, p_completed_tasks pw, p_progress_percent pw))
     = Some (40, 23, 57) \<and>
   progress_percent_spec 23 40 = 58"
proof -
  let ?p = "hd (projects store_23_of_40)"
  have g: "ProjectService_getById store_23_of_40 1 = Inr (attachProgress store_23_of_40 ?p)"
    by (simp add: store_23_of_40_def ProjectService_getById_def)
  have t: "length [t \<leftarrow> todos store_23_of_40. t_project_id t = Some (p_id ?p)] = 40"
    by (simp add: store_23_of_40_def filter_map o_def)
  have "length [t \<leftarrow> todos store_23_of_40. t_project_id t = Some (p_id ?p) \<and> t_status t = ts_completed]
      = length [n \<leftarrow> [1..<41]. n \<le> 23]"
    by (simp add: store_23_of_40_def filter_map o_def)
  also have "\<dots> = 23" by (simp add: upt_rec)
  finally have c: "length [t \<leftarrow> todos store_23_of_40.
      t_project_id t = Some (p_id ?p) \<and> t_status t = ts_completed] = 23" .
  have "progress_percent_spec 23 40 = 58"
    by (simp add: progress_percent_spec_def)
  then show ?thesis
    unfolding g by (simp add: attachProgress_fields t c Number_of_count_small percent_23_40)
qed

section \<open>Where the progress agrees with the specification\<close>

text \<open>
  A count below \<open>2 ^ 53\<close> is
  a double. The quotient and the product are each within half a unit in the last place of
  the exact value, so the number that \<^verbatim>\<open>Math.round\<close> receives is within \<open>164 / 2 ^ 53\<close> of
  the exact percentage; unless the exact percentage is half an integer it is at least
  \<open>1 / (2 * total)\<close> away from the next half, and both round to the same integer.
\<close>

lemma ilog2_less:
  assumes "0 < x" "x < 2 powi k" shows "ilog2 x < k"
proof -
  have "(2::rat) powi ilog2 x < 2 powi k"
    using ilog2_bounds(1) [OF assms(1)] assms(2) by linarith
  then show ?thesis by (rule pow2_less_cancel)
qed

lemma fl_of_int_exact:
  assumes "0 < n" "n < 2 ^ 53" shows "fl (of_int n) = of_int n"
proof -
  let ?x = "of_int n :: rat"
  have x: "0 < ?x" using assms(1) by simp
  have "?x < of_int (2 ^ 53)" using assms(2) by (simp only: of_int_less_iff)
  then have "?x < 2 powi 53" by simp
  then have l: "ilog2 ?x < 53" using x by (rule ilog2_less [rotated])
  define d where "d = nat (52 - ilog2 ?x)"
  have d: "ilog2 ?x - 52 = - int d" using l by (simp add: d_def)
  have "?x * 2 powi (- (ilog2 ?x - 52)) = of_int (n * 2 ^ d)"
    unfolding d by simp
  then have "round_half_even (?x * 2 powi (- (ilog2 ?x - 52))) = n * 2 ^ d"
    by (simp only: round_half_even_of_int)
  then have "fl ?x = of_int (n * 2 ^ d) * 2 powi (- int d)"
    using fl_pos_eq [OF x] d by simp
  also have "\<dots> = ?x" by (simp add: power_int_minus)
  finally show ?thesis .
qed

lemma Number_of_count_exact:
  assumes "n < 2 ^ 53" shows "Number_of_count n = of_nat n"
proof (cases "n = 0")
  case True
  then show ?thesis by (simp add: Number_of_count_def)
next
  case False
  have "int n < int (2 ^ 53)" using assms by (simp only: of_nat_less_iff)
  then have "int n < 2 ^ 53" by simp
  then have "fl (of_int (int n)) = of_int (int n)"
    using False by (intro fl_of_int_exact) simp_all
  then show ?thesis by (simp add: Number_of_count_def)
qed

lemma percent_error:
  assumes "0 < q" "q \<le> 1"
  shows "\<bar>fl (fl q * 100) - q * 100\<bar> \<le> 164 / 2 ^ 53"
proof -
  have "ilog2 q < 1" using assms by (intro ilog2_less) simp_all
  then have "(2::rat) powi (ilog2 q - 53) \<le> 2 powi (- 53)"
    by (intro power_int_increasing) simp_all
  then have e1: "\<bar>fl q - q\<bar> \<le> 1 / 2 ^ 53"
    using fl_error [OF assms(1)] by (simp add: power_int_minus_divide)
  let ?y = "fl q * 100"
  have y: "0 < ?y" using fl_pos [OF assms(1)] by simp
  have "fl q \<le> 1" using fl_mono [of q 1] assms by (simp add: fl_1)
  then have "?y < 2 powi 7" by simp
  then have "ilog2 ?y < 7" using y by (rule ilog2_less [rotated])
  then have "(2::rat) powi (ilog2 ?y - 53) \<le> 2 powi (- 47)"
    by (intro power_int_increasing) simp_all
  then have e2: "\<bar>fl ?y - ?y\<bar> \<le> 1 / 2 ^ 47"
    using fl_error [OF y] by (simp add: power_int_minus_divide)
  have "?y - q * 100 = (fl q - q) * 100" by (simp only: left_diff_distrib)
  then have "\<bar>?y - q * 100\<bar> = \<bar>fl q - q\<bar> * 100" by (simp only: abs_mult abs_numeral)
  moreover have "\<bar>(fl ?y - ?y) + (?y - q * 100)\<bar> \<le> \<bar>fl ?y - ?y\<bar> + \<bar>?y - q * 100\<bar>"
    by (rule abs_triangle_ineq)
  moreover have "(fl ?y - ?y) + (?y - q * 100) = fl ?y - q * 100" by (simp only: diff_add_cancel add_diff_eq)
  ultimately have "\<bar>fl ?y - q * 100\<bar> \<le> \<bar>fl ?y - ?y\<bar> + \<bar>fl q - q\<bar> * 100" by (simp only:)
  also have "\<dots> \<le> 1 / 2 ^ 47 + 1 / 2 ^ 53 * 100"
    using e1 e2 by (intro add_mono mult_right_mono) simp_all
  also have "\<dots> = 164 / 2 ^ 53" by simp
  finally show ?thesis .
qed


lemma percent_agrees:
  fixes c t :: nat
  assumes "0 < t" "c \<le> t" "t < 2 ^ 44" "(200 * c) mod (2 * t) \<noteq> t"
  shows "Math_round (fl (fl (of_nat c / of_nat t) * 100)) = progress_percent_spec c t"
proof (cases "c = 0")
  case True
  then show ?thesis
    using assms(1) by (simp add: progress_percent_spec_def Math_round_def)
next
  case False
  define T C :: rat where "T = of_nat t" and "C = of_nat c"
  define v where "v = C / T * 100"
  define k where "k = \<lfloor>v + 1/2\<rfloor>"
  have T: "0 < T" and C: "0 < C" "C \<le> T" using assms(1,2) False by (simp_all add: T_def C_def)
  have spec: "progress_percent_spec c t = k"
    using assms(1) by (simp add: progress_percent_spec_def k_def v_def T_def C_def)
  have vT: "v * T = 100 * C" using T by (simp add: v_def)
  have k1: "of_int k \<le> v + 1/2" and k2: "v + 1/2 < of_int k + 1"
    unfolding k_def by linarith+
  have "of_int k * (2 * T) \<le> (v + 1/2) * (2 * T)"
    using k1 T by (intro mult_right_mono) simp_all
  also have "\<dots> = 200 * C + T" using vT by (simp add: algebra_simps)
  finally have "(of_int ((2 * k - 1) * int t) :: rat) \<le> of_int (200 * int c)"
    by (simp add: T_def C_def algebra_simps)
  then have n0: "(2 * k - 1) * int t \<le> 200 * int c" by (simp only: of_int_le_iff)
  have "(v + 1/2) * (2 * T) < (of_int k + 1) * (2 * T)"
    using k2 T by (intro mult_strict_right_mono) simp_all
  moreover have "(v + 1/2) * (2 * T) = 200 * C + T" using vT by (simp add: algebra_simps)
  ultimately have "(of_int (200 * int c) :: rat) < of_int ((2 * k + 1) * int t)"
    by (simp add: T_def C_def algebra_simps)
  then have m0: "200 * int c < (2 * k + 1) * int t" by (simp only: of_int_less_iff)
  have ne: "(2 * k - 1) * int t \<noteq> 200 * int c"
  proof
    assume e: "(2 * k - 1) * int t = 200 * int c"
    have "(200 * int c) mod (2 * int t) = ((k - 1) * (2 * int t) + int t) mod (2 * int t)"
      unfolding e [symmetric] by (simp add: algebra_simps)
    also have "\<dots> = int t" using assms(1) by simp
    finally have "int ((200 * c) mod (2 * t)) = int t" by (simp add: zmod_int)
    then show False using assms(4) by simp
  qed
  with n0 have n1: "(2 * k - 1) * int t + 1 \<le> 200 * int c" by linarith
  from m0 have m1: "200 * int c + 1 \<le> (2 * k + 1) * int t" by linarith
  have lo: "of_int k - 1/2 + 1 / (2 * T) \<le> v"
  proof -
    have "(of_int ((2 * k - 1) * int t + 1) :: rat) \<le> of_int (200 * int c)"
      using n1 by (simp only: of_int_le_iff)
    then have "(2 * of_int k - 1) * T + 1 \<le> 2 * (v * T)"
      unfolding vT by (simp add: T_def C_def)
    then have "((of_int k - 1/2) + 1 / (2 * T)) * (2 * T) \<le> v * (2 * T)"
      using T by (simp add: algebra_simps)
    then show ?thesis using T by (simp add: mult_le_cancel_right del: mult_2 times_divide_eq_left)
  qed
  have hi: "v \<le> of_int k + 1/2 - 1 / (2 * T)"
  proof -
    have "(of_int (200 * int c + 1) :: rat) \<le> of_int ((2 * k + 1) * int t)"
      using m1 by (simp only: of_int_le_iff)
    then have "2 * (v * T) + 1 \<le> (2 * of_int k + 1) * T"
      unfolding vT by (simp add: T_def C_def)
    then have "v * (2 * T) \<le> ((of_int k + 1/2) - 1 / (2 * T)) * (2 * T)"
      using T by (simp add: algebra_simps)
    then show ?thesis using T by (simp add: mult_le_cancel_right del: mult_2 times_divide_eq_left)
  qed
  have "T < 2 ^ 44"
  proof -
    have "int t < int (2 ^ 44)" using assms(3) by (simp only: of_nat_less_iff)
    then have "(of_int (int t) :: rat) < of_int (int (2 ^ 44))" by (simp only: of_int_less_iff)
    then show ?thesis by (simp add: T_def)
  qed
  then have "2 * T < 2 ^ 45" by simp
  then have "1 / 2 ^ 45 < 1 / (2 * T)"
    using T by (intro divide_strict_left_mono) simp_all
  then have gap: "164 / 2 ^ 53 < 1 / (2 * T)" by simp
  have q: "0 < C / T" "C / T \<le> 1" using T C by simp_all
  have err: "\<bar>fl (fl (C / T) * 100) - v\<bar> \<le> 164 / 2 ^ 53"
    unfolding v_def by (rule percent_error [OF q])
  have "Math_round (fl (fl (C / T) * 100)) = k"
  proof (rule Math_round_eqI)
    show "of_int k - 1/2 \<le> fl (fl (C / T) * 100)" using err gap lo by linarith
    show "fl (fl (C / T) * 100) < of_int k + 1/2" using err gap hi by linarith
  qed
  then show ?thesis by (simp add: spec T_def C_def)
qed


text \<open>
  So the progress that \<^verbatim>\<open>attachProgress\<close> returns is the progress of the specification
  for every project with fewer than \<open>2 ^ 44\<close> todos whose exact percentage is not half an
  integer (that is, unless \<open>200 * completed mod (2 * total) = total\<close>), and likewise for
  a milestone.
\<close>

lemma progress_agrees_off_halves:
  fixes n_completed n_total :: nat
  assumes "n_completed \<le> n_total" "n_total < 2 ^ 44"
    and "(200 * n_completed) mod (2 * n_total) \<noteq> n_total"
  shows "(if 0 < Number_of_count n_total
          then Math_round (fl (fl (Number_of_count n_completed / Number_of_count n_total) * 100))
          else 0) = progress_percent_spec n_completed n_total"
proof (cases "n_total = 0")
  case True
  then show ?thesis by (simp add: Number_of_count_pos_iff progress_percent_spec_def)
next
  case False
  have "(2::nat) ^ 44 \<le> 2 ^ 53" by simp
  then have b: "n_total < 2 ^ 53" "n_completed < 2 ^ 53"
    using assms(1,2) by linarith+
  show ?thesis
    using False percent_agrees [of n_total n_completed] assms
    by (simp add: Number_of_count_pos_iff Number_of_count_exact [OF b(1)]
        Number_of_count_exact [OF b(2)])
qed

lemma attachProgress_agrees_off_halves:
  assumes "length [t \<leftarrow> todos s. t_project_id t = Some (p_id p)] = n_total"
    and "length [t \<leftarrow> todos s. t_project_id t = Some (p_id p) \<and> t_status t = ts_completed]
           = n_completed"
    and "n_total < 2 ^ 44" "(200 * n_completed) mod (2 * n_total) \<noteq> n_total"
  shows "p_progress_percent (attachProgress s p) = progress_percent_spec n_completed n_total"
proof -
  have "n_completed \<le> n_total"
    using length_filter_conj_le [of "\<lambda>t. t_project_id t = Some (p_id p)"
        "\<lambda>t. t_status t = ts_completed" "todos s"] assms(1,2) by simp
  then show ?thesis
    unfolding attachProgress_fields assms(1,2)
    using assms(3,4) by (rule progress_agrees_off_halves)
qed

lemma attachMilestoneProgress_agrees_off_halves:
  assumes "length [t \<leftarrow> todos s. t_milestone_id t = Some (m_id m)] = n_total"
    and "length [t \<leftarrow> todos s. t_milestone_id t = Some (m_id m) \<and> t_status t = ts_completed]
           = n_completed"
    and "n_total < 2 ^ 44" "(200 * n_completed) mod (2 * n_total) \<noteq> n_total"
  shows "m_progress_percent (attachMilestoneProgress s m)
           = progress_percent_spec n_completed n_total"
proof -
  have "n_completed \<le> n_total"
    using length_filter_conj_le [of "\<lambda>t. t_milestone_id t = Some (m_id m)"
        "\<lambda>t. t_status t = ts_completed" "todos s"] assms(1,2) by simp
  then show ?thesis
    unfolding attachMilestoneProgress_fields assms(1,2)
    using assms(3,4) by (rule progress_agrees_off_halves)
qed

section \<open>TodoService: rows, row ids and the insert\<close>

lemma fold_max_ge: "(a::int) \<le> fold max xs a"
  by (induction xs arbitrary: a) (auto intro: order_trans [OF max.cobounded2])

lemma fold_max_ge_elem: "x \<in> set xs \<Longrightarrow> (x::int) \<le> fold max xs a"
proof (induction xs arbitrary: a)
  case Nil
  then show ?case by simp
next
  case (Cons y ys)
  show ?case
  proof (cases "x = y")
    case True
    have "y \<le> max y a" by simp
    also have "\<dots> \<le> fold max ys (max y a)" by (rule fold_max_ge)
    finally show ?thesis using True by simp
  next
    case False
    with Cons show ?thesis by simp
  qed
qed

lemma next_rowid_gt_seq: "seq < next_rowid seq ids"
  unfolding next_rowid_def using fold_max_ge [of seq ids] by linarith

lemma next_rowid_gt_elem: "x \<in> set ids \<Longrightarrow> x < next_rowid seq ids"
  unfolding next_rowid_def using fold_max_ge_elem [of x ids seq] by linarith

lemma next_rowid_fresh: "next_rowid seq ids \<notin> set ids"
  using next_rowid_gt_elem [of "next_rowid seq ids" ids seq] by auto

lemma TodoService_getById_Inr:
  "TodoService_getById s ident = Inr t \<Longrightarrow> t \<in> set (todos s) \<and> t_id t = ident"
  by (auto simp: TodoService_getById_def split: option.splits dest: find_SomeD)

lemma TodoService_getById_exists:
  "ident \<in> t_id ` set (todos s) \<Longrightarrow> \<exists>t. TodoService_getById s ident = Inr t"
  using find_Some_ids [of ident t_id "todos s"] by (auto simp: TodoService_getById_def)

lemma TodoService_getById_missing:
  "ident \<notin> t_id ` set (todos s) \<Longrightarrow>
     TodoService_getById s ident = Inl (ServiceError 404 ''TODO_NOT_FOUND'')"
  using find_None_iff_ids [of t_id ident "todos s"] by (simp add: TodoService_getById_def)

lemma find_append_fresh:
  "i \<notin> f ` set xs \<Longrightarrow> f x = i \<Longrightarrow> find (\<lambda>y. f y = i) (xs @ [x]) = Some x"
  by (induction xs) auto

lemma ref_ok_simps [simp]:
  "ref_ok None ids = True"
  "ref_ok (Some i) ids = (i \<in> set ids)"
  by (simp_all add: ref_ok_def)

lemma ref_ok_mono: "ref_ok r ids \<Longrightarrow> set ids \<subseteq> set ids' \<Longrightarrow> ref_ok r ids'"
  by (cases r) auto

lemma insert_todo_Inr:
  assumes "insert_todo now s title description priority due_date project_id parent_id
             milestone_id level = Inr (s', rowid)"
  shows "rowid = next_rowid (seq_todos s) (map t_id (todos s))"
    and "s' = save (s\<lparr>todos := todos s @ [todo_row now rowid title description priority due_date
                  project_id parent_id milestone_id level], seq_todos := rowid\<rparr>)"
    and "1 \<le> priority \<and> priority \<le> 5"
    and "foreign_keys s \<Longrightarrow> ref_ok project_id (map p_id (projects s))"
    and "foreign_keys s \<Longrightarrow> ref_ok parent_id (rowid # map t_id (todos s))"
    and "foreign_keys s \<Longrightarrow> ref_ok milestone_id (map m_id (milestones s))"
  using assms by (auto simp: insert_todo_def Let_def split: if_splits)

lemma insert_todo_ok:
  assumes "1 \<le> priority" "priority \<le> 5"
    and "foreign_keys s \<Longrightarrow> ref_ok project_id (map p_id (projects s))"
    and "foreign_keys s \<Longrightarrow>
         ref_ok parent_id (next_rowid (seq_todos s) (map t_id (todos s)) # map t_id (todos s))"
    and "foreign_keys s \<Longrightarrow> ref_ok milestone_id (map m_id (milestones s))"
  shows "insert_todo now s title description priority due_date project_id parent_id
           milestone_id level =
         Inr (save (s\<lparr>todos := todos s @ [todo_row now (next_rowid (seq_todos s) (map t_id (todos s)))
                    title description priority due_date project_id parent_id milestone_id level],
                seq_todos := next_rowid (seq_todos s) (map t_id (todos s))\<rparr>),
              next_rowid (seq_todos s) (map t_id (todos s)))"
  using assms by (simp add: insert_todo_def Let_def)

lemma todo_row_sel [simp]:
  "t_id (todo_row now rowid title description priority due_date project_id parent_id milestone_id level) = rowid"
  "t_project_id (todo_row now rowid title description priority due_date project_id parent_id milestone_id level) = project_id"
  "t_parent_id (todo_row now rowid title description priority due_date project_id parent_id milestone_id level) = parent_id"
  "t_milestone_id (todo_row now rowid title description priority due_date project_id parent_id milestone_id level) = milestone_id"
  "t_level (todo_row now rowid title description priority due_date project_id parent_id milestone_id level) = level"
  "t_status (todo_row now rowid title description priority due_date project_id parent_id milestone_id level) = ts_pending"
  "t_priority (todo_row now rowid title description priority due_date project_id parent_id milestone_id level) = priority"
  by (simp_all add: todo_row_def)

lemma getById_after_insert:
  assumes "rowid = next_rowid (seq_todos s) (map t_id (todos s))" "t_id row = rowid"
  shows "TodoService_getById (save (s\<lparr>todos := todos s @ [row], seq_todos := rowid\<rparr>)) rowid
         = Inr row"
proof -
  have "rowid \<notin> t_id ` set (todos s)"
    using next_rowid_fresh [of "seq_todos s" "map t_id (todos s)"] assms(1) by simp
  then show ?thesis
    using assms(2) by (simp add: TodoService_getById_def find_append_fresh)
qed

text \<open>
  The shape of every result of \<^verbatim>\<open>create\<close>: a failure leaves the store as it was, a success
  appends the returned row to the todos and changes nothing else but the row counter.
\<close>

lemma TodoService_create_cases:
  obtains (failed) e where "TodoService_create now s data = (s, Inl e)"
  | (created) t where
      "TodoService_create now s data =
         (save (s\<lparr>todos := todos s @ [t], seq_todos := t_id t\<rparr>), Inr t)"
      "t_id t = next_rowid (seq_todos s) (map t_id (todos s))"
      "foreign_keys s \<longrightarrow> ref_ok (t_project_id t) (map p_id (projects s))"
      "foreign_keys s \<longrightarrow> ref_ok (t_parent_id t) (t_id t # map t_id (todos s))"
      "t_parent_id t = tc_parent_id data"
      "t_level t = (if tc_parent_id data = None \<or> tc_parent_id data = Some 0 then task else subtask)"
proof -
  define priority where "priority = (case tc_priority data of None \<Rightarrow> 3 | Some p \<Rightarrow> p)"
  define level where "level = (if (case tc_parent_id data of None \<Rightarrow> False | Some p \<Rightarrow> p \<noteq> 0) then subtask else task)"
  define resolved where "resolved =
            (case tc_parent_id data of
               None \<Rightarrow> Inr (tc_project_id data)
             | Some p \<Rightarrow>
                 if p = 0 then Inr (tc_project_id data)
                 else (case TodoService_getById s p of
                         Inl e \<Rightarrow> Inl e
                       | Inr parent \<Rightarrow>
                           if t_level parent = subtask
                           then Inl (ServiceError 400 ''MAX_DEPTH_EXCEEDED'')
                           else Inr (t_project_id parent)))"
  have c: "TodoService_create now s data =
      (case resolved of
           Inl e \<Rightarrow> (s, Inl e)
         | Inr resolvedProjectId \<Rightarrow>
             (case insert_todo now s (tc_title data) (tc_description data) priority
                     (tc_due_date data) resolvedProjectId (tc_parent_id data) (tc_milestone_id data) level of
                Inl e \<Rightarrow> (s, Inl e)
              | Inr (s', lastInsertRowid) \<Rightarrow> (s', TodoService_getById s' lastInsertRowid)))"
    unfolding TodoService_create_def Let_def priority_def level_def resolved_def ..
  have lv: "level = (if tc_parent_id data = None \<or> tc_parent_id data = Some 0 then task else subtask)"
    by (auto simp: level_def split: option.splits)
  show thesis
  proof (cases resolved)
    case (Inl e)
    then show ?thesis using failed [of e] by (simp add: c)
  next
    case (Inr pid)
    show ?thesis
    proof (cases "insert_todo now s (tc_title data) (tc_description data) priority
                     (tc_due_date data) pid (tc_parent_id data) (tc_milestone_id data) level")
      case (Inl e)
      then show ?thesis using failed [of e] Inr by (simp add: c)
    next
      case ins: (Inr r)
      obtain s' rowid where r: "r = (s', rowid)" by (cases r)
      let ?row = "todo_row now rowid (tc_title data) (tc_description data) priority
                     (tc_due_date data) pid (tc_parent_id data) (tc_milestone_id data) level"
      note i = insert_todo_Inr [OF ins [unfolded r]]
      have g: "TodoService_getById s' rowid = Inr ?row"
        unfolding i(2) by (rule getById_after_insert [OF i(1)]) simp
      have "TodoService_create now s data =
          (save (s\<lparr>todos := todos s @ [?row], seq_todos := t_id ?row\<rparr>), Inr ?row)"
        using Inr ins r g i(2) by (simp add: c)
      then show ?thesis
        using created [of ?row] i lv by simp
    qed
  qed
qed

section \<open>TodoService: update and delete\<close>

lemma apply_todo_update_sel [simp]:
  "t_id (apply_todo_update now data t) = t_id t"
  "t_level (apply_todo_update now data t) = t_level t"
  "t_created_at (apply_todo_update now data t) = t_created_at t"
  "t_updated_at (apply_todo_update now data t) = now"
  "t_title (apply_todo_update now data t) = (case tu_title data of None \<Rightarrow> t_title t | Some v \<Rightarrow> v)"
  "t_description (apply_todo_update now data t) =
     (case tu_description data of None \<Rightarrow> t_description t | Some v \<Rightarrow> v)"
  "t_status (apply_todo_update now data t) = (case tu_status data of None \<Rightarrow> t_status t | Some v \<Rightarrow> v)"
  "t_priority (apply_todo_update now data t) =
     (case tu_priority data of None \<Rightarrow> t_priority t | Some v \<Rightarrow> v)"
  "t_due_date (apply_todo_update now data t) =
     (case tu_due_date data of None \<Rightarrow> t_due_date t | Some v \<Rightarrow> map_option numeric_affinity v)"
  "t_project_id (apply_todo_update now data t) =
     (case tu_project_id data of None \<Rightarrow> t_project_id t | Some v \<Rightarrow> v)"
  "t_parent_id (apply_todo_update now data t) =
     (case tu_parent_id data of None \<Rightarrow> t_parent_id t | Some v \<Rightarrow> v)"
  "t_milestone_id (apply_todo_update now data t) =
     (case tu_milestone_id data of None \<Rightarrow> t_milestone_id t | Some v \<Rightarrow> v)"
  by (simp_all add: apply_todo_update_def)

lemma apply_todo_update_no_fields: "apply_todo_update now no_fields t = t\<lparr>t_updated_at := now\<rparr>"
  by (simp add: apply_todo_update_def no_fields_def)

lemma update_todo_Inr:
  assumes "update_todo now s ident data = Inr s'"
  shows "s' = save (s\<lparr>todos :=
           map (\<lambda>t. if t_id t = ident then apply_todo_update now data t else t) (todos s)\<rparr>)"
    and "update_accepted s data"
  using assms by (auto simp: update_todo_def update_accepted_def split: if_splits option.splits)

lemma update_todo_ok:
  assumes "update_accepted s data"
  shows "update_todo now s ident data =
     Inr (save (s\<lparr>todos :=
            map (\<lambda>t. if t_id t = ident then apply_todo_update now data t else t) (todos s)\<rparr>))"
  using assms by (auto simp: update_todo_def update_accepted_def split: option.splits)

lemma update_todo_Inl:
  assumes "update_todo now s ident data = Inl e"
  shows "\<not> update_accepted s data"
  using assms update_todo_ok [of s data now ident] by auto

lemma update_accepted_project:
  "update_accepted s data \<Longrightarrow> foreign_keys s \<Longrightarrow>
     supplied_ref_ok (tu_project_id data) (map p_id (projects s))"
  by (simp add: update_accepted_def)

text \<open>The shape of every result of \<^verbatim>\<open>update\<close>.\<close>

lemma TodoService_update_cases:
  obtains (failed) e where "TodoService_update now s ident data = (s, Inl e)"
  | (updated) t where
      "find (\<lambda>t. t_id t = ident) (todos s) = Some t"
      "TodoService_update now s ident data =
         (save (s\<lparr>todos :=
            map (\<lambda>t. if t_id t = ident then apply_todo_update now data t else t) (todos s)\<rparr>),
          Inr (apply_todo_update now data t))"
      "update_accepted s data"
proof (cases "TodoService_getById s ident")
  case (Inl e)
  then show ?thesis using failed [of e] by (simp add: TodoService_update_def)
next
  case (Inr t)
  then have f: "find (\<lambda>t. t_id t = ident) (todos s) = Some t"
    by (simp add: TodoService_getById_def split: option.splits)
  show ?thesis
  proof (cases "update_todo now s ident data")
    case (Inl e)
    then show ?thesis using failed [of e] Inr by (simp add: TodoService_update_def)
  next
    case upd: (Inr s')
    note u = update_todo_Inr [OF upd]
    have "find (\<lambda>t. t_id t = ident) (todos s') = Some (apply_todo_update now data t)"
      unfolding u(1) using find_map_update [of t_id "apply_todo_update now data" ident "todos s"] f
      by simp
    then have "TodoService_getById s' ident = Inr (apply_todo_update now data t)"
      by (simp add: TodoService_getById_def)
    then have "TodoService_update now s ident data = (s', Inr (apply_todo_update now data t))"
      using Inr upd by (simp add: TodoService_update_def)
    then show ?thesis using updated [of t] f u by simp
  qed
qed

lemma cascade_delete_subset: "set (cascade_delete gone rows) \<subseteq> set rows"
proof (induction gone rows rule: cascade_delete.induct)
  case (1 gone rows)
  show ?case
  proof (cases "list_ex (child_of gone) rows")
    case True
    with 1 have "set (cascade_delete gone rows) \<subseteq> set (filter (\<lambda>t. \<not> child_of gone t) rows)"
      by (subst cascade_delete.simps) simp
    then show ?thesis by auto
  next
    case False
    then show ?thesis by (subst cascade_delete.simps) simp
  qed
qed

lemma cascade_delete_no_child:
  "t \<in> set (cascade_delete gone rows) \<Longrightarrow> \<not> child_of gone t"
proof (induction gone rows rule: cascade_delete.induct)
  case (1 gone rows)
  show ?case
  proof (cases "list_ex (child_of gone) rows")
    case True
    with "1.prems" have "t \<in> set (cascade_delete (map t_id (filter (child_of gone) rows))
        (filter (\<lambda>t. \<not> child_of gone t) rows))"
      by (subst (asm) cascade_delete.simps) simp
    then have "t \<in> set (filter (\<lambda>t. \<not> child_of gone t) rows)"
      using cascade_delete_subset by blast
    then show ?thesis by simp
  next
    case False
    with "1.prems" have "t \<in> set rows" by (subst (asm) cascade_delete.simps) simp
    with False show ?thesis by (auto simp: list_ex_iff)
  qed
qed

section \<open>Invariants of the reachable stores\<close>

lemma store_invI:
  assumes "0 \<le> seq_todos s"
    and "\<And>t. t \<in> set (todos s) \<Longrightarrow> 0 < t_id t"
    and "\<And>t. foreign_keys s \<Longrightarrow> t \<in> set (todos s) \<Longrightarrow>
           ref_ok (t_project_id t) (map p_id (projects s))"
  shows "store_inv s"
  using assms by (simp add: store_inv_def list_all_iff)

lemma store_invD:
  assumes "store_inv s"
  shows "0 \<le> seq_todos s"
    and "t \<in> set (todos s) \<Longrightarrow> 0 < t_id t"
    and "foreign_keys s \<Longrightarrow> t \<in> set (todos s) \<Longrightarrow>
           ref_ok (t_project_id t) (map p_id (projects s))"
  using assms by (simp_all add: store_inv_def list_all_iff)

lemma store_inv_no_rows:
  "todos s = [] \<Longrightarrow> seq_todos s = 0 \<Longrightarrow> store_inv s"
  by (simp add: store_inv_def)

lemma store_inv_off:
  assumes "store_inv s" "set (todos s') \<subseteq> set (todos s)" "seq_todos s' = seq_todos s"
    and "\<not> foreign_keys s'"
  shows "store_inv s'"
  using store_invD(1,2) [OF assms(1)] assms(2-4) by (intro store_invI) auto

lemma store_inv_save: "store_inv s \<Longrightarrow> store_inv (save s)"
  by (auto simp: store_inv_def list_all_iff dest: save_foreign_keys)

lemma store_inv_createTestDb: "store_inv createTestDb"
  by (simp add: store_inv_no_rows createTestDb_eq)

lemma store_inv_getDb: "store_inv (getDb dbPath DB_PATH None)"
  by (simp add: store_inv_no_rows getDb_tables)

lemma store_inv_reopened:
  assumes "store_inv s" shows "store_inv (getDb dbPath DB_PATH (Some s))"
  using getDb_reopened [of dbPath DB_PATH s]
proof
  assume "getDb dbPath DB_PATH (Some s) = getDb dbPath DB_PATH None"
  then show ?thesis by (simp add: store_inv_getDb)
next
  assume "todos (getDb dbPath DB_PATH (Some s)) = todos s \<and>
    projects (getDb dbPath DB_PATH (Some s)) = projects s \<and>
    milestones (getDb dbPath DB_PATH (Some s)) = milestones s \<and>
    seq_todos (getDb dbPath DB_PATH (Some s)) = seq_todos s \<and>
    \<not> foreign_keys (getDb dbPath DB_PATH (Some s))"
  then show ?thesis by (intro store_inv_off [OF assms]) simp_all
qed

lemma store_inv_ProjectService_create:
  assumes "store_inv s" shows "store_inv (fst (ProjectService_create now s data))"
proof -
  let ?s1 = "s\<lparr>projects := projects s @
      [\<lparr>p_id = next_rowid (seq_projects s) (map p_id (projects s)), p_name = pc_name data,
        p_description = pc_description data, p_status = ps_active, p_created_at = now,
        p_updated_at = now\<rparr>],
      seq_projects := next_rowid (seq_projects s) (map p_id (projects s))\<rparr>"
  have "store_inv ?s1"
  proof (rule store_invI)
    show "0 \<le> seq_todos ?s1" using store_invD(1) [OF assms] by simp
    show "0 < t_id t" if "t \<in> set (todos ?s1)" for t
      using store_invD(2) [OF assms] that by simp
    show "ref_ok (t_project_id t) (map p_id (projects ?s1))"
      if "foreign_keys ?s1" "t \<in> set (todos ?s1)" for t
      using store_invD(3) [OF assms, of t] that by (cases "t_project_id t") auto
  qed
  then show ?thesis
    by (simp add: ProjectService_create_def Let_def store_inv_save)
qed

lemma apply_project_update_id [simp]: "p_id (apply_project_update now data p) = p_id p"
  by (simp add: apply_project_update_def)

lemma store_inv_same_todos:
  assumes "store_inv s" "todos s' = todos s" "seq_todos s' = seq_todos s"
    "map p_id (projects s') = map p_id (projects s)" "foreign_keys s' \<Longrightarrow> foreign_keys s"
  shows "store_inv s'"
proof (rule store_invI)
  show "0 \<le> seq_todos s'" using store_invD(1) [OF assms(1)] assms(3) by simp
  show "0 < t_id t" if "t \<in> set (todos s')" for t
    using store_invD(2) [OF assms(1)] that assms(2) by simp
  show "ref_ok (t_project_id t) (map p_id (projects s'))"
    if "foreign_keys s'" "t \<in> set (todos s')" for t
    using store_invD(3) [OF assms(1) assms(5) [OF that(1)], of t] that(2) assms(2,4) by simp
qed

lemma store_inv_ProjectService_update:
  assumes "store_inv s" shows "store_inv (fst (ProjectService_update now s ident data))"
proof (rule store_inv_same_todos [OF assms])
  let ?s' = "fst (ProjectService_update now s ident data)"
  have "map p_id (map (\<lambda>p. if p_id p = ident then apply_project_update now data p else p) ps)
      = map p_id ps" for ps
    by (induction ps) simp_all
  then show "map p_id (projects ?s') = map p_id (projects s)"
    by (auto simp: ProjectService_update_def Let_def split: sum.splits)
  show "todos ?s' = todos s" "seq_todos ?s' = seq_todos s"
    by (auto simp: ProjectService_update_def Let_def split: sum.splits)
  show "foreign_keys s" if "foreign_keys ?s'"
    using that by (auto simp: ProjectService_update_def Let_def split: sum.splits
        dest: save_foreign_keys)
qed

lemma clear_sel [simp]:
  "t_id (clear_milestone gone t) = t_id t"
  "t_project_id (clear_milestone gone t) = t_project_id t"
  "t_parent_id (clear_milestone gone t) = t_parent_id t"
  "t_level (clear_milestone gone t) = t_level t"
  "t_id (clear_project ident t) = t_id t"
  "t_parent_id (clear_project ident t) = t_parent_id t"
  "t_level (clear_project ident t) = t_level t"
  "t_project_id (clear_project ident t) = (if t_project_id t = Some ident then None else t_project_id t)"
  by (simp_all add: clear_milestone_def clear_project_def split: option.splits)

lemma store_inv_ProjectService_delete:
  assumes "store_inv s" shows "store_inv (fst (ProjectService_delete s ident))"
proof (cases "ProjectService_getById s ident")
  case (Inl e)
  then show ?thesis using assms by (simp add: ProjectService_delete_def)
next
  case (Inr pw)
  define gone where "gone = (\<lambda>i. i \<in> m_id ` set [m \<leftarrow> milestones s. m_project_id m = ident])"
  let ?s' = "fst (ProjectService_delete s ident)"
  show ?thesis
  proof (cases "foreign_keys s")
    case True
    have eq: "todos ?s' = map (clear_project ident \<circ> clear_milestone gone) (todos s)"
      "seq_todos ?s' = seq_todos s" "projects ?s' = [p \<leftarrow> projects s. p_id p \<noteq> ident]"
      using Inr True by (simp_all add: ProjectService_delete_def Let_def gone_def)
    show ?thesis
    proof (rule store_invI)
      show "0 \<le> seq_todos ?s'" using store_invD(1) [OF assms] eq by simp
      show "0 < t_id t" if "t \<in> set (todos ?s')" for t
        using store_invD(2) [OF assms] that unfolding eq by auto
      show "ref_ok (t_project_id t) (map p_id (projects ?s'))" if mem: "t \<in> set (todos ?s')" for t
      proof -
        obtain u where u: "u \<in> set (todos s)" "t = clear_project ident (clear_milestone gone u)"
          using mem unfolding eq by auto
        show ?thesis
          using store_invD(3) [OF assms True u(1)] unfolding eq u(2)
          by (cases "t_project_id u") auto
      qed
    qed
  next
    case False
    show ?thesis
      using Inr False by (intro store_inv_off [OF assms])
        (simp_all add: ProjectService_delete_def Let_def)
  qed
qed

lemma store_inv_ProjectService_createMilestone:
  assumes "store_inv s" shows "store_inv (fst (ProjectService_createMilestone now s data))"
  by (rule store_inv_same_todos [OF assms])
    (auto simp: ProjectService_createMilestone_def Let_def split: sum.splits
      dest: save_foreign_keys)

lemma store_inv_ProjectService_completeMilestone:
  assumes "store_inv s" shows "store_inv (fst (ProjectService_completeMilestone s ident undo))"
  by (rule store_inv_same_todos [OF assms])
    (auto simp: ProjectService_completeMilestone_def Let_def split: sum.splits
      dest: save_foreign_keys)

lemma store_inv_ProjectService_deleteMilestone:
  assumes "store_inv s" shows "store_inv (fst (ProjectService_deleteMilestone s ident))"
proof (cases "ProjectService_getMilestoneById s ident")
  case (Inl e)
  then show ?thesis using assms by (simp add: ProjectService_deleteMilestone_def)
next
  case (Inr mw)
  let ?s' = "fst (ProjectService_deleteMilestone s ident)"
  show ?thesis
  proof (cases "foreign_keys s")
    case True
    have eq: "todos ?s' = map (clear_milestone (\<lambda>i. i = ident)) (todos s)"
      "seq_todos ?s' = seq_todos s" "projects ?s' = projects s"
      using Inr True by (simp_all add: ProjectService_deleteMilestone_def)
    show ?thesis
    proof (rule store_invI)
      show "0 \<le> seq_todos ?s'" using store_invD(1) [OF assms] eq by simp
      show "0 < t_id t" if "t \<in> set (todos ?s')" for t
        using store_invD(2) [OF assms] that unfolding eq by auto
      show "ref_ok (t_project_id t) (map p_id (projects ?s'))" if "t \<in> set (todos ?s')" for t
        using store_invD(3) [OF assms True] that unfolding eq by auto
    qed
  next
    case False
    show ?thesis
      using Inr False by (intro store_inv_off [OF assms])
        (simp_all add: ProjectService_deleteMilestone_def)
  qed
qed

lemma store_inv_TodoService_create:
  assumes "store_inv s" shows "store_inv (fst (TodoService_create now s data))"
proof (cases rule: TodoService_create_cases [of now s data])
  case (failed e)
  then show ?thesis using assms by simp
next
  case (created t)
  have pos: "0 < t_id t"
    using next_rowid_gt_seq [of "seq_todos s" "map t_id (todos s)"] store_invD(1) [OF assms]
    unfolding created(2) by linarith
  let ?s1 = "s\<lparr>todos := todos s @ [t], seq_todos := t_id t\<rparr>"
  have "store_inv ?s1"
  proof (rule store_invI)
    show "0 \<le> seq_todos ?s1"
      using pos by simp
    show "0 < t_id u" if "u \<in> set (todos ?s1)" for u
      using that pos store_invD(2) [OF assms, of u] by auto
    show "ref_ok (t_project_id u) (map p_id (projects ?s1))"
      if "foreign_keys ?s1" "u \<in> set (todos ?s1)" for u
      using that created(3) store_invD(3) [OF assms, of u] by auto
  qed
  then show ?thesis
    unfolding created(1) fst_conv by (rule store_inv_save)
qed

lemma store_inv_TodoService_createMany:
  "store_inv s \<Longrightarrow> store_inv (fst (TodoService_createMany now s items))"
proof (induction items arbitrary: s)
  case Nil
  then show ?case by simp
next
  case (Cons item items)
  obtain s1 r1 where c: "TodoService_create now s item = (s1, r1)"
    by (cases "TodoService_create now s item")
  have s1: "store_inv s1"
    using store_inv_TodoService_create [OF Cons.prems, of now item] c by simp
  show ?case
  proof (cases r1)
    case (Inl e)
    then show ?thesis using c s1 by simp
  next
    case (Inr t)
    obtain s2 r2 where m: "TodoService_createMany now s1 items = (s2, r2)"
      by (cases "TodoService_createMany now s1 items")
    have "store_inv s2" using Cons.IH [OF s1] m by simp
    then show ?thesis using c Inr m by (cases r2) simp_all
  qed
qed

lemma store_inv_TodoService_update:
  assumes "store_inv s" shows "store_inv (fst (TodoService_update now s ident data))"
proof (cases rule: TodoService_update_cases [of now s ident data])
  case (failed e)
  then show ?thesis using assms by simp
next
  case (updated t)
  let ?s1 = "s\<lparr>todos := map (\<lambda>t. if t_id t = ident then apply_todo_update now data t else t) (todos s)\<rparr>"
  have "store_inv ?s1"
  proof (rule store_invI)
    show "0 \<le> seq_todos ?s1" using store_invD(1) [OF assms] by simp
    show "0 < t_id u" if "u \<in> set (todos ?s1)" for u
      using that store_invD(2) [OF assms] by auto
    show "ref_ok (t_project_id u) (map p_id (projects ?s1))"
      if fk: "foreign_keys ?s1" and mem: "u \<in> set (todos ?s1)" for u
    proof -
      have fk': "foreign_keys s" using fk by simp
      obtain v where v: "v \<in> set (todos s)"
        "u = (if t_id v = ident then apply_todo_update now data v else v)"
        using mem by auto
      show ?thesis
        using store_invD(3) [OF assms fk' v(1)] update_accepted_project [OF updated(3) fk']
        unfolding v(2)
        by (auto simp: supplied_ref_ok_def split: option.splits)
    qed
  qed
  then show ?thesis
    unfolding updated(2) fst_conv by (rule store_inv_save)
qed

lemma store_inv_TodoService_delete:
  assumes "store_inv s" shows "store_inv (fst (TodoService_delete s ident))"
proof (cases "TodoService_getById s ident")
  case (Inl e)
  then show ?thesis using assms by (simp add: TodoService_delete_def)
next
  case (Inr t)
  let ?s' = "fst (TodoService_delete s ident)"
  have eq: "todos ?s' = (if foreign_keys s
      then cascade_delete [ident] [t \<leftarrow> todos s. t_id t \<noteq> ident]
      else [t \<leftarrow> todos s. t_id t \<noteq> ident])"
    "seq_todos ?s' = seq_todos s" "projects ?s' = projects s"
    using Inr by (simp_all add: TodoService_delete_def)
  have fk: "foreign_keys s" if "foreign_keys ?s'"
    using that Inr by (auto simp: TodoService_delete_def dest: save_foreign_keys)
  have sub: "set (todos ?s') \<subseteq> set (todos s)"
    unfolding eq using cascade_delete_subset [of "[ident]" "[t \<leftarrow> todos s. t_id t \<noteq> ident]"] by auto
  show ?thesis
  proof (rule store_invI)
    show "0 \<le> seq_todos ?s'" using store_invD(1) [OF assms] eq by simp
    show "0 < t_id t" if "t \<in> set (todos ?s')" for t
      using store_invD(2) [OF assms, of t] that sub by auto
    show "ref_ok (t_project_id t) (map p_id (projects ?s'))"
      if "foreign_keys ?s'" "t \<in> set (todos ?s')" for t
      using store_invD(3) [OF assms fk, of t] that sub eq(3) by auto
  qed
qed

lemma store_inv_exec: "store_inv s \<Longrightarrow> store_inv (exec now c s)"
  by (cases c)
    (simp_all add: store_inv_ProjectService_create store_inv_ProjectService_update
      store_inv_ProjectService_delete store_inv_ProjectService_createMilestone
      store_inv_ProjectService_completeMilestone store_inv_ProjectService_deleteMilestone
      store_inv_TodoService_create store_inv_TodoService_createMany
      store_inv_TodoService_update store_inv_TodoService_delete TodoService_updateStatus_def)

lemma reachable_by_store_inv: "reachable_by permitted s \<Longrightarrow> store_inv s"
  by (induction rule: reachable_by.induct)
    (simp_all add: store_inv_createTestDb store_inv_getDb store_inv_reopened store_inv_exec)

lemma reachable_store_inv: "reachable s \<Longrightarrow> store_inv s"
  unfolding reachable_def by (rule reachable_by_store_inv)

section \<open>Creating todos: inheritance and the depth limit\<close>

lemma reachable_by_foldl:
  assumes "reachable_by permitted s" "list_all permitted cs"
  shows "reachable_by permitted (foldl (\<lambda>s c. exec now c s) s cs)"
  using assms by (induction cs arbitrary: s) (auto intro: reachable_by.step)

lemma reachable_scenario_store: "reachable scenario_store"
  unfolding reachable_def scenario_store_def
  by (rule reachable_by_foldl) (simp_all add: reachable_by.test_db list_all_iff)

lemma reachable_by_server_db: "reachable_by permitted server_db"
  unfolding server_db_def by (rule reachable_by.new_db)

lemma reachable_server_store: "reachable server_store"
  unfolding reachable_def server_store_def
  by (rule reachable_by_foldl) (simp_all add: reachable_by_server_db list_all_iff)

lemma TodoService_create_present:
  assumes "tc_parent_id data = Some pid" "pid \<noteq> 0"
  shows "TodoService_create now s data =
     (case TodoService_getById s pid of
        Inl e \<Rightarrow> (s, Inl e)
      | Inr parent \<Rightarrow>
          if t_level parent = subtask then (s, Inl (ServiceError 400 ''MAX_DEPTH_EXCEEDED''))
          else (case insert_todo now s (tc_title data) (tc_description data)
                       (case tc_priority data of None \<Rightarrow> 3 | Some p \<Rightarrow> p) (tc_due_date data)
                       (t_project_id parent) (Some pid) (tc_milestone_id data) subtask of
                  Inl e \<Rightarrow> (s, Inl e)
                | Inr (s', lastInsertRowid) \<Rightarrow> (s', TodoService_getById s' lastInsertRowid)))"
  using assms by (simp add: TodoService_create_def Let_def split: sum.splits)

lemma TodoService_create_absent:
  assumes "tc_parent_id data = None \<or> tc_parent_id data = Some 0"
  shows "TodoService_create now s data =
     (case insert_todo now s (tc_title data) (tc_description data)
             (case tc_priority data of None \<Rightarrow> 3 | Some p \<Rightarrow> p) (tc_due_date data)
             (tc_project_id data) (tc_parent_id data) (tc_milestone_id data) task of
        Inl e \<Rightarrow> (s, Inl e)
      | Inr (s', lastInsertRowid) \<Rightarrow> (s', TodoService_getById s' lastInsertRowid))"
  using assms by (auto simp: TodoService_create_def Let_def)

text \<open>
  The parts of claim C3 that hold: below a subtask \<^verbatim>\<open>create\<close> fails with
  \<^verbatim>\<open>MAX_DEPTH_EXCEEDED\<close> and the store is as before, and for a parent id other than 0
  that no todo has it fails with \<^verbatim>\<open>TODO_NOT_FOUND\<close>.
\<close>

lemma create_MaxDepthExceeded:
  assumes "tc_parent_id data = Some pid" "pid \<noteq> 0"
    and "TodoService_getById s pid = Inr parent" "t_level parent = subtask"
  shows "TodoService_create now s data = (s, Inl (ServiceError 400 ''MAX_DEPTH_EXCEEDED''))"
  using assms by (simp add: TodoService_create_present)

lemma create_parent_NotFound:
  assumes "tc_parent_id data = Some pid" "pid \<noteq> 0" "pid \<notin> t_id ` set (todos s)"
  shows "TodoService_create now s data = (s, Inl (ServiceError 404 ''TODO_NOT_FOUND''))"
  using assms by (simp add: TodoService_create_present TodoService_getById_missing)

text \<open>
  With the parent id 0 the lookup of the parent is skipped in every reachable store. The
  call ends in a constraint failure of the store, or, where the connection does not
  enforce foreign keys, in a new task with the parent id 0.
\<close>

lemma create_parent_0:
  assumes "reachable s" "tc_parent_id data = Some 0"
  shows "(\<exists>c. TodoService_create now s data = (s, Inl (ConstraintFailed c))) \<or>
         (\<not> foreign_keys s \<and>
          (\<exists>s' t. TodoService_create now s data = (s', Inr t) \<and> t_level t = task \<and>
             t_parent_id t = Some 0 \<and> todos s' = todos s @ [t]))"
proof -
  note inv = reachable_store_inv [OF assms(1)]
  define priority where "priority = (case tc_priority data of None \<Rightarrow> 3 | Some p \<Rightarrow> p)"
  let ?rowid = "next_rowid (seq_todos s) (map t_id (todos s))"
  let ?row = "todo_row now ?rowid (tc_title data) (tc_description data) priority (tc_due_date data)
      (tc_project_id data) (Some 0) (tc_milestone_id data) task"
  let ?s' = "save (s\<lparr>todos := todos s @ [?row], seq_todos := ?rowid\<rparr>)"
  have c: "TodoService_create now s data =
     (case insert_todo now s (tc_title data) (tc_description data) priority (tc_due_date data)
             (tc_project_id data) (Some 0) (tc_milestone_id data) task of
        Inl e \<Rightarrow> (s, Inl e)
      | Inr (s', lastInsertRowid) \<Rightarrow> (s', TodoService_getById s' lastInsertRowid))"
    using assms(2) by (simp add: TodoService_create_absent priority_def)
  have "0 < ?rowid"
    using next_rowid_gt_seq [of "seq_todos s" "map t_id (todos s)"] store_invD(1) [OF inv]
    by linarith
  moreover have "0 \<notin> t_id ` set (todos s)"
    using store_invD(2) [OF inv] by force
  ultimately have no: "\<not> ref_ok (Some 0) (?rowid # map t_id (todos s))"
    by simp
  show ?thesis
  proof (cases "1 \<le> priority \<and> priority \<le> 5")
    case False
    then show ?thesis by (auto simp: c insert_todo_def Let_def)
  next
    case pr: True
    show ?thesis
    proof (cases "foreign_keys s")
      case True
      then show ?thesis using pr no by (simp add: c insert_todo_def Let_def)
    next
      case False
      have "insert_todo now s (tc_title data) (tc_description data) priority (tc_due_date data)
          (tc_project_id data) (Some 0) (tc_milestone_id data) task = Inr (?s', ?rowid)"
        using pr False by (intro insert_todo_ok) simp_all
      moreover have "TodoService_getById ?s' ?rowid = Inr ?row"
        by (rule getById_after_insert) simp_all
      ultimately have "TodoService_create now s data = (?s', Inr ?row)"
        by (simp add: c)
      then show ?thesis using False by simp
    qed
  qed
qed

text \<open>
  Claim C3, which the code does not meet for the parent id 0. \<^verbatim>\<open>if (parent_id)\<close> takes 0
  for an absent parent: the parent is not fetched and the row is inserted as a task with
  \<^verbatim>\<open>parent_id = 0\<close>. No todo has the id 0, so the claim asks for the 404 error
  \<^verbatim>\<open>TODO_NOT_FOUND\<close>. On the database of the tests the store rejects the row by the
  foreign key and nothing is inserted; on the database of the server, whose connection does
  not enforce foreign keys, the row is stored and returned.
\<close>

theorem create_parent_id_0_not_NotFound:
  "0 \<notin> t_id ` set (todos scenario_store) \<and>
   TodoService_create ''2026-02-02 09:00:00'' scenario_store
     \<lparr>tc_title = ''X'', tc_description = None, tc_priority = None, tc_due_date = None,
      tc_project_id = None, tc_parent_id = Some 0, tc_milestone_id = None\<rparr>
     = (scenario_store, Inl (ConstraintFailed FOREIGN_KEY)) \<and>
   0 \<notin> t_id ` set (todos server_store) \<and>
   TodoService_create ''2026-02-02 09:00:00'' server_store
     \<lparr>tc_title = ''X'', tc_description = None, tc_priority = None, tc_due_date = None,
      tc_project_id = None, tc_parent_id = Some 0, tc_milestone_id = None\<rparr>
     = (server_store\<lparr>todos := todos server_store @
          [\<lparr>t_id = 4, t_title = ''X'', t_description = None, t_status = ts_pending,
            t_priority = 3, t_due_date = None, t_project_id = None, t_parent_id = Some 0,
            t_milestone_id = None, t_level = task, t_created_at = ''2026-02-02 09:00:00'',
            t_updated_at = ''2026-02-02 09:00:00''\<rparr>], seq_todos := 4\<rparr>,
        Inr \<lparr>t_id = 4, t_title = ''X'', t_description = None, t_status = ts_pending,
            t_priority = 3, t_due_date = None, t_project_id = None, t_parent_id = Some 0,
            t_milestone_id = None, t_level = task, t_created_at = ''2026-02-02 09:00:00'',
            t_updated_at = ''2026-02-02 09:00:00''\<rparr>)"
  by (simp add: server_store_eq scenario_store_eq TodoService_create_def insert_todo_def
      TodoService_getById_def todo_row_def next_rowid_def save_def Database_export_def Let_def)

text \<open>
  Claim C2 as stated fails: the task 1 of the scenario exists and is not a subtask, yet
  on the database of the tests \<^verbatim>\<open>create\<close> with this parent and a milestone id that no
  milestone has returns no todo but the failure of the foreign key; and with this parent
  and the priority 9 it returns the failure of the check of the priority, on the database
  of the tests and on the database of the server alike.
\<close>

theorem create_subtask_counterexample:
  "reachable scenario_store \<and>
   TodoService_getById scenario_store 1 = Inr (hd (todos scenario_store)) \<and>
   t_level (hd (todos scenario_store)) = task \<and>
   TodoService_create ''2026-02-02 09:00:00'' scenario_store
     \<lparr>tc_title = ''S3'', tc_description = None, tc_priority = None, tc_due_date = None,
      tc_project_id = None, tc_parent_id = Some 1, tc_milestone_id = Some 77\<rparr>
     = (scenario_store, Inl (ConstraintFailed FOREIGN_KEY)) \<and>
   TodoService_create ''2026-02-02 09:00:00'' scenario_store
     \<lparr>tc_title = ''S3'', tc_description = None, tc_priority = Some 9, tc_due_date = None,
      tc_project_id = None, tc_parent_id = Some 1, tc_milestone_id = None\<rparr>
     = (scenario_store, Inl (ConstraintFailed CHECK_priority)) \<and>
   reachable server_store \<and>
   TodoService_getById server_store 1 = Inr (hd (todos server_store)) \<and>
   t_level (hd (todos server_store)) = task \<and>
   TodoService_create ''2026-02-02 09:00:00'' server_store
     \<lparr>tc_title = ''S3'', tc_description = None, tc_priority = Some 9, tc_due_date = None,
      tc_project_id = None, tc_parent_id = Some 1, tc_milestone_id = None\<rparr>
     = (server_store, Inl (ConstraintFailed CHECK_priority))"
  using reachable_scenario_store reachable_server_store
  by (simp add: server_store_eq scenario_store_eq TodoService_create_def TodoService_getById_def
      insert_todo_def next_rowid_def Let_def)

text \<open>
  Claim C2, amended. In a reachable store, for a create input whose \<^verbatim>\<open>parent_id\<close> is the id
  of an existing todo that is not a subtask, whose priority, when supplied, is within 1 to
  5 and whose \<^verbatim>\<open>milestone_id\<close>, when supplied, is the id of a stored milestone,
  \<^verbatim>\<open>create\<close> returns a todo of level subtask with the \<^verbatim>\<open>project_id\<close> of the parent,
  whatever \<^verbatim>\<open>project_id\<close> the input has; the todo is the row appended to the store.
\<close>

theorem create_subtask_inherits:
  assumes "reachable s"
    and "tc_parent_id data = Some pid"
    and "TodoService_getById s pid = Inr parent"
    and "t_level parent \<noteq> subtask"
    and "case tc_priority data of None \<Rightarrow> True | Some p \<Rightarrow> 1 \<le> p \<and> p \<le> 5"
    and "ref_ok (tc_milestone_id data) (map m_id (milestones s))"
  shows "\<exists>s' todo. TodoService_create now s data = (s', Inr todo) \<and>
           t_level todo = subtask \<and> t_project_id todo = t_project_id parent \<and>
           t_parent_id todo = Some pid \<and> todos s' = todos s @ [todo]"
proof -
  note inv = reachable_store_inv [OF assms(1)]
  note par = TodoService_getById_Inr [OF assms(3)]
  have pid: "pid \<noteq> 0" using store_invD(2) [OF inv, of parent] par by auto
  define priority where "priority = (case tc_priority data of None \<Rightarrow> 3 | Some p \<Rightarrow> p)"
  have pr: "1 \<le> priority" "priority \<le> 5"
    using assms(5) by (auto simp: priority_def split: option.splits)
  let ?rowid = "next_rowid (seq_todos s) (map t_id (todos s))"
  let ?row = "todo_row now ?rowid (tc_title data) (tc_description data) priority (tc_due_date data)
      (t_project_id parent) (Some pid) (tc_milestone_id data) subtask"
  let ?s' = "save (s\<lparr>todos := todos s @ [?row], seq_todos := ?rowid\<rparr>)"
  have ins: "insert_todo now s (tc_title data) (tc_description data) priority (tc_due_date data)
      (t_project_id parent) (Some pid) (tc_milestone_id data) subtask = Inr (?s', ?rowid)"
    using pr store_invD(3) [OF inv _ conjunct1 [OF par]] par assms(6)
    by (intro insert_todo_ok) auto
  have get: "TodoService_getById ?s' ?rowid = Inr ?row"
    by (rule getById_after_insert) simp_all
  have "TodoService_create now s data = (?s', Inr ?row)"
    using assms(3,4) ins get
    by (simp add: TodoService_create_present [OF assms(2) pid] priority_def)
  then show ?thesis by (intro exI [of _ ?s'] exI [of _ ?row]) simp
qed

text \<open>
  Whatever the other fields of the input are, a todo that \<^verbatim>\<open>create\<close> returns for such a
  parent is a subtask of the project of the parent.
\<close>

lemma create_subtask_returned:
  assumes "reachable s"
    and "tc_parent_id data = Some pid"
    and "TodoService_getById s pid = Inr parent"
    and "TodoService_create now s data = (s', Inr todo)"
  shows "t_level todo = subtask \<and> t_project_id todo = t_project_id parent"
proof -
  note inv = reachable_store_inv [OF assms(1)]
  note par = TodoService_getById_Inr [OF assms(3)]
  have pid: "pid \<noteq> 0" using store_invD(2) [OF inv, of parent] par by auto
  define priority where "priority = (case tc_priority data of None \<Rightarrow> 3 | Some p \<Rightarrow> p)"
  have lv: "t_level parent \<noteq> subtask"
    using assms(3,4) by (auto simp: TodoService_create_present [OF assms(2) pid])
  obtain s1 rowid where ins: "insert_todo now s (tc_title data) (tc_description data) priority
      (tc_due_date data) (t_project_id parent) (Some pid) (tc_milestone_id data) subtask
      = Inr (s1, rowid)"
    and get: "TodoService_getById s1 rowid = Inr todo"
    using assms(3,4) lv
    by (auto simp: TodoService_create_present [OF assms(2) pid] priority_def split: sum.splits)
  note i = insert_todo_Inr [OF ins]
  have "TodoService_getById s1 rowid = Inr (todo_row now rowid (tc_title data)
      (tc_description data) priority (tc_due_date data) (t_project_id parent) (Some pid)
      (tc_milestone_id data) subtask)"
    unfolding i(2) by (rule getById_after_insert [OF i(1)]) simp
  with get show ?thesis by auto
qed

text \<open>
  Witness of C2: a third subtask of the task of the scenario, created with the id 5 of a
  project that does not exist, belongs to the project 1 of its parent.
\<close>

theorem create_subtask_inherits_witness:
  "reachable scenario_store \<and>
   TodoService_getById scenario_store 1 = Inr (hd (todos scenario_store)) \<and>
   t_level (hd (todos scenario_store)) = task \<and>
   t_project_id (hd (todos scenario_store)) = Some 1 \<and>
   map t_level (todos (fst (TodoService_create ''2026-02-02 09:00:00'' scenario_store
     \<lparr>tc_title = ''S3'', tc_description = None, tc_priority = Some 2, tc_due_date = None,
      tc_project_id = Some 5, tc_parent_id = Some 1, tc_milestone_id = Some 1\<rparr>)))
     = [task, subtask, subtask, subtask] \<and>
   map t_project_id (todos (fst (TodoService_create ''2026-02-02 09:00:00'' scenario_store
     \<lparr>tc_title = ''S3'', tc_description = None, tc_priority = Some 2, tc_due_date = None,
      tc_project_id = Some 5, tc_parent_id = Some 1, tc_milestone_id = Some 1\<rparr>)))
     = [Some 1, Some 1, Some 1, Some 1]"
proof -
  let ?data = "\<lparr>tc_title = ''S3'', tc_description = None, tc_priority = Some 2, tc_due_date = None,
      tc_project_id = Some 5, tc_parent_id = Some 1, tc_milestone_id = Some 1\<rparr>"
  have g: "TodoService_getById scenario_store 1 = Inr (hd (todos scenario_store))"
    by (simp add: scenario_store_eq TodoService_getById_def)
  have l: "t_level (hd (todos scenario_store)) = task"
    "t_project_id (hd (todos scenario_store)) = Some 1"
    "map t_level (todos scenario_store) = [task, subtask, subtask]"
    "map t_project_id (todos scenario_store) = [Some 1, Some 1, Some 1]"
    by (simp_all add: scenario_store_eq)
  have m: "ref_ok (tc_milestone_id ?data) (map m_id (milestones scenario_store))"
    by (simp add: scenario_store_eq)
  obtain s' todo where c:
    "TodoService_create ''2026-02-02 09:00:00'' scenario_store ?data = (s', Inr todo)"
    "t_level todo = subtask" "t_project_id todo = t_project_id (hd (todos scenario_store))"
    "todos s' = todos scenario_store @ [todo]"
    using create_subtask_inherits [OF reachable_scenario_store _ g, of ?data "''2026-02-02 09:00:00''"] l(1) m
    by auto
  show ?thesis
    using reachable_scenario_store g l c by simp
qed

section \<open>The hierarchy invariant\<close>

lemma level_consistent_create:
  assumes "list_all level_consistent (todos s)" "tc_parent_id data \<noteq> Some 0"
  shows "list_all level_consistent (todos (fst (TodoService_create now s data)))"
proof (cases rule: TodoService_create_cases [of now s data])
  case (failed e)
  then show ?thesis using assms(1) by simp
next
  case (created t)
  have "level_consistent t"
    using created(5,6) assms(2) by (auto simp: level_consistent_def)
  then show ?thesis using assms(1) created(1) by simp
qed

lemma level_consistent_createMany:
  "list_all level_consistent (todos s) \<Longrightarrow>
   list_all (\<lambda>data. tc_parent_id data \<noteq> Some 0) items \<Longrightarrow>
     list_all level_consistent (todos (fst (TodoService_createMany now s items)))"
proof (induction items arbitrary: s)
  case Nil
  then show ?case by simp
next
  case (Cons item items)
  obtain s1 r1 where c: "TodoService_create now s item = (s1, r1)"
    by (cases "TodoService_create now s item")
  have s1: "list_all level_consistent (todos s1)"
    using level_consistent_create [OF Cons.prems(1), of item now] Cons.prems(2) c by simp
  show ?case
  proof (cases r1)
    case (Inl e)
    then show ?thesis using c s1 by simp
  next
    case (Inr t)
    obtain s2 r2 where m: "TodoService_createMany now s1 items = (s2, r2)"
      by (cases "TodoService_createMany now s1 items")
    have "list_all level_consistent (todos s2)"
      using Cons.IH [OF s1] Cons.prems(2) m by simp
    then show ?thesis using c Inr m by (cases r2) simp_all
  qed
qed

text \<open>
  An \<^verbatim>\<open>update\<close> keeps the invariant when it leaves \<^verbatim>\<open>parent_id\<close> alone, and also when
  it sets a parent of a todo that has one or clears the parent of a todo that has none.
\<close>

lemma level_consistent_update:
  assumes "list_all level_consistent (todos s)"
    and "\<And>v t. tu_parent_id data = Some v \<Longrightarrow> t \<in> set (todos s) \<Longrightarrow> t_id t = ident \<Longrightarrow>
           (v = None) = (t_parent_id t = None)"
  shows "list_all level_consistent (todos (fst (TodoService_update now s ident data)))"
proof (cases rule: TodoService_update_cases [of now s ident data])
  case (failed e)
  then show ?thesis using assms(1) by simp
next
  case (updated t)
  have "level_consistent (apply_todo_update now data u)"
    if "u \<in> set (todos s)" "t_id u = ident" for u
  proof (cases "tu_parent_id data")
    case None
    then show ?thesis using assms(1) that(1) by (simp add: level_consistent_def list_all_iff)
  next
    case (Some v)
    have "level_consistent u" using assms(1) that(1) by (simp add: list_all_iff)
    then show ?thesis
      using assms(2) [OF Some that] Some by (auto simp: level_consistent_def)
  qed
  then show ?thesis
    using assms(1) unfolding updated(2) by (auto simp: list_all_iff)
qed

lemma level_consistent_delete:
  assumes "list_all level_consistent (todos s)"
  shows "list_all level_consistent (todos (fst (TodoService_delete s ident)))"
proof (cases "TodoService_getById s ident")
  case (Inl e)
  then show ?thesis using assms by (simp add: TodoService_delete_def)
next
  case (Inr t)
  have "set (cascade_delete [ident] [t \<leftarrow> todos s. t_id t \<noteq> ident]) \<subseteq> set (todos s)"
    using cascade_delete_subset [of "[ident]" "[t \<leftarrow> todos s. t_id t \<noteq> ident]"] by auto
  then show ?thesis
    using assms Inr by (auto simp: TodoService_delete_def list_all_iff)
qed

lemma level_consistent_clear [simp]:
  "level_consistent (clear_milestone gone t) = level_consistent t"
  "level_consistent (clear_project ident t) = level_consistent t"
  by (simp_all add: level_consistent_def)

lemma level_consistent_exec:
  assumes "list_all level_consistent (todos s)" "keeps_hierarchy c"
  shows "list_all level_consistent (todos (exec now c s))"
proof (cases c)
  case (Project_create data)
  then show ?thesis using assms(1) by (simp add: ProjectService_create_def Let_def)
next
  case (Project_update ident data)
  then show ?thesis using assms(1)
    by (simp add: ProjectService_update_def Let_def split: sum.splits)
next
  case (Project_delete ident)
  then show ?thesis using assms(1)
    by (simp add: ProjectService_delete_def Let_def list_all_iff split: sum.splits)
next
  case (Milestone_create data)
  then show ?thesis using assms(1)
    by (simp add: ProjectService_createMilestone_def Let_def split: sum.splits)
next
  case (Milestone_complete ident undo)
  then show ?thesis using assms(1)
    by (simp add: ProjectService_completeMilestone_def Let_def split: sum.splits)
next
  case (Milestone_delete ident)
  then show ?thesis using assms(1)
    by (simp add: ProjectService_deleteMilestone_def list_all_iff split: sum.splits)
next
  case (Todo_create data)
  then show ?thesis using level_consistent_create [OF assms(1)] assms(2) by simp
next
  case (Todo_createMany items)
  then show ?thesis using level_consistent_createMany [OF assms(1)] assms(2) by simp
next
  case (Todo_update ident data)
  then have "tu_parent_id data = None" using assms(2) by simp
  then have "list_all level_consistent (todos (fst (TodoService_update now s ident data)))"
    by (intro level_consistent_update [OF assms(1)]) simp
  then show ?thesis using Todo_update by simp
next
  case (Todo_updateStatus ident status)
  have "list_all level_consistent
      (todos (fst (TodoService_update now s ident (no_fields\<lparr>tu_status := Some status\<rparr>))))"
    by (intro level_consistent_update [OF assms(1)]) (simp add: no_fields_def)
  then show ?thesis
    using Todo_updateStatus by (simp add: TodoService_updateStatus_def)
next
  case (Todo_delete ident)
  then show ?thesis using level_consistent_delete [OF assms(1)] by simp
qed

text \<open>
  Apart from the two defects the invariant of claim C5 holds: in every store reachable
  by operations of the two services among which no \<^verbatim>\<open>update\<close> supplies \<^verbatim>\<open>parent_id\<close>
  and no \<^verbatim>\<open>create\<close> has the parent id 0, every todo row has the level subtask exactly
  when it has a parent and the level task exactly when it has none.
\<close>

lemma level_invariant_apart_from_defects:
  assumes "reachable_by keeps_hierarchy s"
  shows "list_all level_consistent (todos s)"
  using assms
proof (induction rule: reachable_by.induct)
  case test_db
  then show ?case by (simp add: createTestDb_eq)
next
  case (new_db dbPath DB_PATH)
  then show ?case by (simp add: getDb_tables)
next
  case (reopened s dbPath DB_PATH)
  then show ?case
    using getDb_reopened [of dbPath DB_PATH s] by (auto simp: getDb_tables)
next
  case (step s c now)
  then show ?case
    using level_consistent_exec by simp
qed

lemma level_invariant_scenario:
  "reachable_by keeps_hierarchy scenario_store \<and> reachable_by keeps_hierarchy server_store \<and>
   list_all level_consistent (todos scenario_store) \<and>
   list_all level_consistent (todos server_store)"
proof -
  have r: "reachable_by keeps_hierarchy scenario_store"
    unfolding scenario_store_def
    by (rule reachable_by_foldl) (simp_all add: reachable_by.test_db scenario_def)
  have r': "reachable_by keeps_hierarchy server_store"
    unfolding server_store_def
    by (rule reachable_by_foldl) (simp_all add: reachable_by_server_db scenario_def)
  show ?thesis
    using r r' level_invariant_apart_from_defects by simp
qed

text \<open>
  Claim C5, which the code does not meet. \<^verbatim>\<open>update\<close> sets \<^verbatim>\<open>parent_id\<close> like any other
  column and leaves the level as it is: after two tasks are created and the second is
  given the first as its parent, the second is a task with a parent. And \<^verbatim>\<open>create\<close> with
  the parent id 0 on the database of the server stores a task with a parent id. Both
  stores are reached by operations of \<^verbatim>\<open>TodoService\<close> alone.
\<close>

theorem level_invariant_violated:
  "reachable_by todo_command reparented_store \<and>
   map (\<lambda>t. (t_id t, t_level t, t_parent_id t)) (todos reparented_store)
     = [(1, task, None), (2, task, Some 1)] \<and>
   \<not> list_all level_consistent (todos reparented_store) \<and>
   reachable_by todo_command parent_0_store \<and>
   map (\<lambda>t. (t_id t, t_level t, t_parent_id t)) (todos parent_0_store) = [(1, task, Some 0)] \<and>
   \<not> list_all level_consistent (todos parent_0_store)"
proof -
  have "reachable_by todo_command reparented_store"
    unfolding reparented_store_def
    by (rule reachable_by_foldl) (simp_all add: reachable_by.test_db reparenting_def)
  moreover have "reachable_by todo_command parent_0_store"
    unfolding parent_0_store_def
    by (rule reachable_by_foldl) (simp_all add: reachable_by_server_db parent_0_def)
  ultimately show ?thesis
    by (simp add: reparented_store_def reparenting_def parent_0_store_def parent_0_def
        service_defs level_consistent_def Let_def)
qed

section \<open>Deleting a todo\<close>

lemma cascade_delete_keeps_tasks:
  "t \<in> set rows \<Longrightarrow> t_parent_id t = None \<Longrightarrow> t \<in> set (cascade_delete gone rows)"
proof (induction gone rows rule: cascade_delete.induct)
  case (1 gone rows)
  have nc: "\<not> child_of gone t" using "1.prems"(2) by (simp add: child_of_def)
  show ?case
  proof (cases "list_ex (child_of gone) rows")
    case True
    have "t \<in> set (filter (\<lambda>t. \<not> child_of gone t) rows)" using "1.prems"(1) nc by simp
    then have "t \<in> set (cascade_delete (map t_id (filter (child_of gone) rows))
        (filter (\<lambda>t. \<not> child_of gone t) rows))"
      using "1.IH" [OF True] "1.prems"(2) by simp
    then show ?thesis using True by (subst cascade_delete.simps) simp
  next
    case False
    then show ?thesis using "1.prems"(1) by (subst cascade_delete.simps) simp
  qed
qed

lemma TodoService_delete_existing:
  assumes "TodoService_getById s ident = Inr t"
  shows "TodoService_delete s ident =
     (save (s\<lparr>todos := (if foreign_keys s
                          then cascade_delete [ident] [t \<leftarrow> todos s. t_id t \<noteq> ident]
                          else [t \<leftarrow> todos s. t_id t \<noteq> ident])\<rparr>), Inr ident)"
  using assms by (simp add: TodoService_delete_def)

text \<open>A todo without a parent, other than the deleted one, stays.\<close>

lemma delete_keeps_other_tasks:
  assumes "u \<in> set (todos s)" "t_id u \<noteq> ident" "t_parent_id u = None"
  shows "u \<in> set (todos (fst (TodoService_delete s ident)))"
proof (cases "TodoService_getById s ident")
  case (Inl e)
  then show ?thesis using assms(1) by (simp add: TodoService_delete_def)
next
  case (Inr t)
  have "u \<in> set (cascade_delete [ident] [t \<leftarrow> todos s. t_id t \<noteq> ident])"
    using assms by (intro cascade_delete_keeps_tasks) simp_all
  then show ?thesis using Inr assms(1,2) by (simp add: TodoService_delete_def)
qed

lemma deleted_rows_apart:
  assumes "t \<in> set (cascade_delete [ident] [t \<leftarrow> todos s. t_id t \<noteq> ident])"
  shows "apart_from ident t"
proof -
  have "t \<in> set [t \<leftarrow> todos s. t_id t \<noteq> ident]"
    using assms cascade_delete_subset by blast
  moreover have "\<not> child_of [ident] t"
    using assms by (rule cascade_delete_no_child)
  ultimately show ?thesis
    by (auto simp: apart_from_def child_of_def split: option.splits)
qed

lemma set_by_priority_due_date [simp]: "set (by_priority_due_date rows) = set rows"
  by (simp add: by_priority_due_date_def)

lemma getAll_subset: "set (r_todos (TodoService_getAll s options)) \<subseteq> set (todos s)"
  by (auto simp: TodoService_getAll_def Let_def)

lemma getStandalone_subset: "set (r_todos (TodoService_getStandalone s status)) \<subseteq> set (todos s)"
  by (auto simp: TodoService_getStandalone_def Let_def)

lemma Todo_truncate_extend: "Todo.truncate (Todo.extend (row::Todo) ext) = row"
  by (cases row) (simp add: Todo.defs)

lemma subtasks_extend: "subtasks (Todo.extend (row::Todo) (TodoWithChildren.fields subs)) = subs"
  by (simp add: Todo.defs TodoWithChildren.defs)

lemma getProjectTree_rows:
  assumes "tw \<in> set (TodoService_getProjectTree s projectId)"
  shows "Todo.truncate tw \<in> set (todos s)" and "set (subtasks tw) \<subseteq> set (todos s)"
proof -
  obtain row where row: "row \<in> set (todos s)"
    "tw = Todo.extend row (TodoWithChildren.fields
            (by_priority_due_date [t \<leftarrow> todos s. t_parent_id t = Some (t_id row)]))"
    using assms by (auto simp: TodoService_getProjectTree_def Let_def)
  show "Todo.truncate tw \<in> set (todos s)"
    using row(1) by (simp add: row(2) Todo_truncate_extend)
  show "set (subtasks tw) \<subseteq> set (todos s)"
    by (auto simp: row(2) subtasks_extend)
qed

lemma apart_from_truncate [simp]: "apart_from ident (Todo.truncate tw) = apart_from ident tw"
  by (simp add: apart_from_def Todo.defs)

text \<open>
  Where the connection enforces foreign keys, as on the database of the tests, claim C4
  holds. For an existing todo, of whatever level and so for every task, \<^verbatim>\<open>delete\<close>
  succeeds and removes rows only; afterwards no stored row is the todo or has it as its
  parent, and neither \<^verbatim>\<open>getAll\<close> (with any filters) nor \<^verbatim>\<open>getStandalone\<close> nor
  \<^verbatim>\<open>getProjectTree\<close> (among the tasks or among their subtasks) returns such a row.
\<close>

lemma delete_cascades_with_foreign_keys:
  assumes "TodoService_getById s ident = Inr t" "foreign_keys s"
  shows "\<exists>s'. TodoService_delete s ident = (s', Inr ident) \<and>
           set (todos s') \<subseteq> set (todos s) \<and>
           list_all (apart_from ident) (todos s') \<and>
           list_all (apart_from ident) (r_todos (TodoService_getAll s' options)) \<and>
           list_all (apart_from ident) (r_todos (TodoService_getStandalone s' status)) \<and>
           list_all (\<lambda>tw. apart_from ident tw \<and> list_all (apart_from ident) (subtasks tw))
             (TodoService_getProjectTree s' projectId)"
proof -
  define s' where "s' = save (s\<lparr>todos := cascade_delete [ident] [t \<leftarrow> todos s. t_id t \<noteq> ident]\<rparr>)"
  have d: "TodoService_delete s ident = (s', Inr ident)"
    unfolding s'_def using TodoService_delete_existing [OF assms(1)] assms(2) by simp
  have sub: "set (todos s') \<subseteq> set (todos s)"
    unfolding s'_def using cascade_delete_subset [of "[ident]" "[t \<leftarrow> todos s. t_id t \<noteq> ident]"]
    by auto
  have ap: "apart_from ident u" if "u \<in> set (todos s')" for u
    using that unfolding s'_def by (simp add: deleted_rows_apart)
  have 1: "list_all (apart_from ident) (todos s')"
    using ap by (simp add: list_all_iff)
  have 2: "list_all (apart_from ident) (r_todos (TodoService_getAll s' options))"
    using ap getAll_subset [of s' options] by (auto simp: list_all_iff)
  have 3: "list_all (apart_from ident) (r_todos (TodoService_getStandalone s' status))"
    using ap getStandalone_subset [of s' status] by (auto simp: list_all_iff)
  have 4: "list_all (\<lambda>tw. apart_from ident tw \<and> list_all (apart_from ident) (subtasks tw))
             (TodoService_getProjectTree s' projectId)"
    unfolding list_all_iff
  proof (intro ballI conjI)
    fix tw assume tw: "tw \<in> set (TodoService_getProjectTree s' projectId)"
    show "apart_from ident tw"
      using ap [OF getProjectTree_rows(1) [OF tw]] by simp
    show "apart_from ident u" if "u \<in> set (subtasks tw)" for u
      using ap getProjectTree_rows(2) [OF tw] that by blast
  qed
  show ?thesis using d sub 1 2 3 4 by blast
qed

text \<open>
  The scenario of the specification on the database of the tests: deleting the task
  removes the three todos, the listings are empty and the progress of the project is 0 of 0.
\<close>

lemma delete_cascades_in_the_tests:
  "TodoService_getById scenario_store 1 = Inr (hd (todos scenario_store)) \<and>
   t_level (hd (todos scenario_store)) = task \<and>
   map t_parent_id (todos scenario_store) = [None, Some 1, Some 1] \<and>
   todos (fst (TodoService_delete scenario_store 1)) = [] \<and>
   snd (TodoService_delete scenario_store 1) = Inr 1 \<and>
   TodoService_getProjectTree (fst (TodoService_delete scenario_store 1)) 1 = [] \<and>
   (case ProjectService_getById (fst (TodoService_delete scenario_store 1)) 1 of
      Inl e \<Rightarrow> None
    | Inr pw \<Rightarrow> Some (p_total_tasks pw, p_completed_tasks pw, p_progress_percent pw))
     = Some (0, 0, 0) \<and>
   list_all (apart_from 1)
     (r_todos (TodoService_getAll (fst (TodoService_delete scenario_store 1))
        \<lparr>o_status = None, o_project_id = Some 1, o_parent_id = None, o_level = None\<rparr>))"
proof -
  have g: "TodoService_getById scenario_store 1 = Inr (hd (todos scenario_store))"
    by (simp add: scenario_store_eq TodoService_getById_def)
  have l: "t_level (hd (todos scenario_store)) = task"
    "map t_parent_id (todos scenario_store) = [None, Some 1, Some 1]"
    by (simp_all add: scenario_store_eq)
  have e: "todos (fst (TodoService_delete scenario_store 1)) = []"
    by (simp add: scenario_store_eq TodoService_delete_def TodoService_getById_def
        cascade_delete.simps child_of_def)
  have t: "TodoService_getProjectTree (fst (TodoService_delete scenario_store 1)) 1 = []"
    by (simp add: e TodoService_getProjectTree_def by_priority_due_date_def)
  have s: "fst (TodoService_delete scenario_store 1) = scenario_store\<lparr>todos := []\<rparr>"
    using e by (simp add: TodoService_delete_def TodoService_getById_def scenario_store_eq
        save_def)
  have p: "(case ProjectService_getById (fst (TodoService_delete scenario_store 1)) 1 of
      Inl e \<Rightarrow> None
    | Inr pw \<Rightarrow> Some (p_total_tasks pw, p_completed_tasks pw, p_progress_percent pw))
     = Some (0, 0, 0)"
    unfolding s
    by (simp add: scenario_store_eq ProjectService_getById_def attachProgress_fields
        Number_of_count_small)
  have fk: "foreign_keys scenario_store"
    by (simp add: scenario_store_eq)
  obtain s' where d: "TodoService_delete scenario_store 1 = (s', Inr 1)"
    and a: "list_all (apart_from 1) (r_todos (TodoService_getAll s'
        \<lparr>o_status = None, o_project_id = Some 1, o_parent_id = None, o_level = None\<rparr>))"
    using delete_cascades_with_foreign_keys [OF g fk] by blast
  show ?thesis using g l e t p d a by simp
qed

section \<open>The database of the server\<close>

text \<open>
  A database that is saved to a file does not enforce foreign keys: \<^verbatim>\<open>initTables\<close>
  already saves it, and no operation sets the pragma again.
\<close>

lemma TodoService_create_connection:
  "filePath (fst (TodoService_create now s data)) = filePath s \<and>
   (\<not> foreign_keys s \<longrightarrow> \<not> foreign_keys (fst (TodoService_create now s data)))"
  by (cases rule: TodoService_create_cases [of now s data]) simp_all

lemma TodoService_createMany_connection:
  "filePath (fst (TodoService_createMany now s items)) = filePath s \<and>
   (\<not> foreign_keys s \<longrightarrow> \<not> foreign_keys (fst (TodoService_createMany now s items)))"
proof (induction items arbitrary: s)
  case Nil
  then show ?case by simp
next
  case (Cons item items)
  obtain s1 r1 where c: "TodoService_create now s item = (s1, r1)"
    by (cases "TodoService_create now s item")
  have s1: "filePath s1 = filePath s" "\<not> foreign_keys s \<Longrightarrow> \<not> foreign_keys s1"
    using TodoService_create_connection [of now s item] c by simp_all
  show ?case
  proof (cases r1)
    case (Inl e)
    then show ?thesis using c s1 by simp
  next
    case (Inr t)
    obtain s2 r2 where m: "TodoService_createMany now s1 items = (s2, r2)"
      by (cases "TodoService_createMany now s1 items")
    have "filePath s2 = filePath s1 \<and> (\<not> foreign_keys s1 \<longrightarrow> \<not> foreign_keys s2)"
      using Cons.IH [of s1] m by simp
    then show ?thesis using c Inr m s1 by (cases r2) auto
  qed
qed

lemma TodoService_update_connection:
  "filePath (fst (TodoService_update now s ident data)) = filePath s \<and>
   (\<not> foreign_keys s \<longrightarrow> \<not> foreign_keys (fst (TodoService_update now s ident data)))"
  by (cases rule: TodoService_update_cases [of now s ident data]) simp_all

lemma exec_connection:
  "filePath (exec now c s) = filePath s \<and>
   (\<not> foreign_keys s \<longrightarrow> \<not> foreign_keys (exec now c s))"
proof (cases c)
  case (Project_create data)
  then show ?thesis by (simp add: ProjectService_create_def Let_def)
next
  case (Project_update ident data)
  then show ?thesis by (simp add: ProjectService_update_def Let_def split: sum.splits)
next
  case (Project_delete ident)
  then show ?thesis by (simp add: ProjectService_delete_def Let_def split: sum.splits)
next
  case (Milestone_create data)
  then show ?thesis by (simp add: ProjectService_createMilestone_def Let_def split: sum.splits)
next
  case (Milestone_complete ident undo)
  then show ?thesis by (simp add: ProjectService_completeMilestone_def Let_def split: sum.splits)
next
  case (Milestone_delete ident)
  then show ?thesis by (simp add: ProjectService_deleteMilestone_def split: sum.splits)
next
  case (Todo_create data)
  then show ?thesis using TodoService_create_connection [of now s data] by simp
next
  case (Todo_createMany items)
  then show ?thesis using TodoService_createMany_connection [of now s items] by simp
next
  case (Todo_update ident data)
  then show ?thesis using TodoService_update_connection [of now s ident data] by simp
next
  case (Todo_updateStatus ident status)
  then show ?thesis
    using TodoService_update_connection [of now s ident "no_fields\<lparr>tu_status := Some status\<rparr>"]
    by (simp add: TodoService_updateStatus_def)
next
  case (Todo_delete ident)
  then show ?thesis by (simp add: TodoService_delete_def split: sum.splits)
qed

lemma getDb_connection:
  "filePath (getDb dbPath DB_PATH existing) \<noteq> None \<Longrightarrow>
     \<not> foreign_keys (getDb dbPath DB_PATH existing)"
  by (auto simp: getDb_def initTables_def pragma_foreign_keys_ON_def new_Database_def Let_def
      save_def Database_export_def or_else_def split: option.splits if_splits)

lemma file_without_foreign_keys:
  assumes "reachable_by permitted s" "filePath s \<noteq> None"
  shows "\<not> foreign_keys s"
  using assms
proof (induction rule: reachable_by.induct)
  case test_db
  then show ?case by (simp add: createTestDb_eq)
next
  case (new_db dbPath DB_PATH)
  then show ?case by (rule getDb_connection)
next
  case (reopened s dbPath DB_PATH)
  then show ?case using getDb_connection by blast
next
  case (step s c now)
  then show ?case using exec_connection [of now c s] by simp
qed

text \<open>
  Without foreign keys \<^verbatim>\<open>delete\<close> removes the rows with the id and no other: a subtask
  of the deleted task stays in the store, with the id of its parent.
\<close>

lemma delete_without_foreign_keys:
  assumes "TodoService_getById s ident = Inr t" "\<not> foreign_keys s"
  shows "TodoService_delete s ident =
           (save (s\<lparr>todos := [t \<leftarrow> todos s. t_id t \<noteq> ident]\<rparr>), Inr ident)"
    and "u \<in> set (todos s) \<Longrightarrow> t_id u \<noteq> ident \<Longrightarrow>
           u \<in> set (todos (fst (TodoService_delete s ident)))"
  using TodoService_delete_existing [OF assms(1)] assms(2) by simp_all

text \<open>
  Claim C4, which the code does not meet on the database of the server. There the
  scenario leaves the task 1 with its subtasks 2 and 3; \<^verbatim>\<open>delete\<close> of the task succeeds
  and removes the task alone: the two subtasks stay in the store with the parent id 1, and
  \<^verbatim>\<open>getAll\<close> for the project and \<^verbatim>\<open>getAll\<close> for the children of the task return them.
\<close>

theorem delete_without_cascade_on_server:
  "reachable server_store \<and>
   TodoService_getById server_store 1 = Inr (hd (todos server_store)) \<and>
   map (\<lambda>t. (t_id t, t_level t, t_parent_id t)) (todos server_store)
     = [(1, task, None), (2, subtask, Some 1), (3, subtask, Some 1)] \<and>
   snd (TodoService_delete server_store 1) = Inr 1 \<and>
   map (\<lambda>t. (t_id t, t_level t, t_parent_id t)) (todos (fst (TodoService_delete server_store 1)))
     = [(2, subtask, Some 1), (3, subtask, Some 1)] \<and>
   map t_id (r_todos (TodoService_getAll (fst (TodoService_delete server_store 1))
        \<lparr>o_status = None, o_project_id = Some 1, o_parent_id = None, o_level = None\<rparr>))
     = [3, 2] \<and>
   map t_id (r_todos (TodoService_getAll (fst (TodoService_delete server_store 1))
        \<lparr>o_status = None, o_project_id = None, o_parent_id = Some (Some 1), o_level = None\<rparr>))
     = [3, 2]"
  using reachable_server_store
  by (simp add: server_store_eq scenario_store_eq TodoService_delete_def TodoService_getById_def
      TodoService_getAll_def by_priority_due_date_def text_filter_def save_def
      Database_export_def Let_def)

section \<open>Creating many todos\<close>

lemma TodoService_create_Inl:
  assumes "TodoService_create now s data = (s', Inl e)" shows "s' = s"
  using assms by (cases rule: TodoService_create_cases [of now s data]) simp_all

lemma TodoService_create_Inr:
  assumes "TodoService_create now s data = (s', Inr t)" shows "todos s' = todos s @ [t]"
  using assms by (cases rule: TodoService_create_cases [of now s data]) auto

lemma TodoService_createMany_Cons_Inl:
  assumes "TodoService_create now s item = (s1, Inl e)"
  shows "TodoService_createMany now s (item # items) = (s1, Inl e)"
  using assms by simp

lemma TodoService_createMany_Cons_Inr:
  assumes "TodoService_create now s item = (s1, Inr t)"
  shows "TodoService_createMany now s (item # items) =
     (case TodoService_createMany now s1 items of
        (s2, Inl e) \<Rightarrow> (s2, Inl e) | (s2, Inr created) \<Rightarrow> (s2, Inr (t # created)))"
  using assms by simp

lemma TodoService_createMany_Inr:
  "TodoService_createMany now s items = (s', Inr created) \<Longrightarrow>
     length created = length items \<and> todos s' = todos s @ created"
proof (induction items arbitrary: s s' created)
  case Nil
  then show ?case by simp
next
  case (Cons item items)
  obtain s1 r1 where c: "TodoService_create now s item = (s1, r1)"
    by (cases "TodoService_create now s item")
  show ?case
  proof (cases r1)
    case (Inl e)
    then show ?thesis using Cons.prems c by simp
  next
    case (Inr t)
    obtain s2 r2 where m: "TodoService_createMany now s1 items = (s2, r2)"
      by (cases "TodoService_createMany now s1 items")
    show ?thesis
    proof (cases r2)
      case (Inl e)
      then show ?thesis using Cons.prems c Inr m by simp
    next
      case r2: (Inr cs)
      have eq: "s' = s2" "created = t # cs" using Cons.prems c Inr m r2 by simp_all
      have "length cs = length items \<and> todos s2 = todos s1 @ cs"
        using Cons.IH [of s1 s2 cs] m r2 by simp
      moreover have "todos s1 = todos s @ [t]"
        using c Inr by (simp add: TodoService_create_Inr)
      ultimately show ?thesis using eq by simp
    qed
  qed
qed

lemma TodoService_createMany_append:
  "TodoService_createMany now s (xs @ ys) =
     (case TodoService_createMany now s xs of
        (s1, Inl e) \<Rightarrow> (s1, Inl e)
      | (s1, Inr cs) \<Rightarrow>
          (case TodoService_createMany now s1 ys of
             (s2, Inl e) \<Rightarrow> (s2, Inl e)
           | (s2, Inr ds) \<Rightarrow> (s2, Inr (cs @ ds))))"
proof (induction xs arbitrary: s)
  case Nil
  then show ?case by (simp split: prod.splits sum.splits)
next
  case (Cons x xs)
  obtain s1 r1 where c: "TodoService_create now s x = (s1, r1)"
    by (cases "TodoService_create now s x")
  show ?case
  proof (cases r1)
    case (Inl e)
    then show ?thesis using c by simp
  next
    case (Inr t)
    show ?thesis
      using c Inr Cons.IH [of s1] by (simp split: prod.splits sum.splits)
  qed
qed

lemma TodoService_createMany_Inl:
  "TodoService_createMany now s items = (s', Inl e) \<Longrightarrow>
     \<exists>xs x ys cs. items = xs @ x # ys \<and>
        TodoService_createMany now s xs = (s', Inr cs) \<and>
        TodoService_create now s' x = (s', Inl e)"
proof (induction items arbitrary: s)
  case Nil
  then show ?case by simp
next
  case (Cons item items)
  obtain s1 r1 where c: "TodoService_create now s item = (s1, r1)"
    by (cases "TodoService_create now s item")
  show ?case
  proof (cases r1)
    case (Inl e1)
    have s1: "s1 = s" using c Inl by (simp add: TodoService_create_Inl)
    have "s' = s" "e = e1" using Cons.prems c Inl s1 by simp_all
    then have "item # items = [] @ item # items \<and>
        TodoService_createMany now s [] = (s', Inr []) \<and>
        TodoService_create now s' item = (s', Inl e)"
      using c Inl s1 by simp
    then show ?thesis by blast
  next
    case (Inr t)
    obtain s2 r2 where m: "TodoService_createMany now s1 items = (s2, r2)"
      by (cases "TodoService_createMany now s1 items")
    have r2: "s2 = s'" "r2 = Inl e"
      using Cons.prems c Inr m by (cases r2; simp)+
    obtain xs x ys cs where i: "items = xs @ x # ys"
      "TodoService_createMany now s1 xs = (s', Inr cs)"
      "TodoService_create now s' x = (s', Inl e)"
      using Cons.IH [of s1] m r2 by blast
    have "item # items = (item # xs) @ x # ys \<and>
        TodoService_createMany now s (item # xs) = (s', Inr (t # cs)) \<and>
        TodoService_create now s' x = (s', Inl e)"
      using i c Inr by simp
    then show ?thesis by blast
  qed
qed

lemma TodoService_createMany_in_order:
  assumes "TodoService_createMany now s items = (s', Inr created)" "items = xs @ x # ys"
  shows "\<exists>s1 cs s2. TodoService_createMany now s xs = (s1, Inr cs) \<and>
           TodoService_create now s1 x = (s2, Inr (created ! length xs))"
proof -
  obtain s1 r1 where a: "TodoService_createMany now s xs = (s1, r1)"
    by (cases "TodoService_createMany now s xs")
  obtain s3 r3 where b: "TodoService_createMany now s1 (x # ys) = (s3, r3)"
    by (cases "TodoService_createMany now s1 (x # ys)")
  obtain s2 r2 where c: "TodoService_create now s1 x = (s2, r2)"
    by (cases "TodoService_create now s1 x")
  obtain s4 r4 where d: "TodoService_createMany now s2 ys = (s4, r4)"
    by (cases "TodoService_createMany now s2 ys")
  have split: "TodoService_createMany now s (xs @ x # ys) = (s', Inr created)"
    using assms by simp
  obtain cs where r1: "r1 = Inr cs"
    using split a unfolding TodoService_createMany_append [of now s xs "x # ys"]
    by (cases r1) simp_all
  obtain ds where r3: "r3 = Inr ds" and cr: "created = cs @ ds"
    using split a b r1 unfolding TodoService_createMany_append [of now s xs "x # ys"]
    by (cases r3) simp_all
  obtain t where r2: "r2 = Inr t"
    using b c r3 by (cases r2) simp_all
  obtain es where "ds = t # es"
    using b c d r2 r3 by (cases r4) auto
  moreover have "length cs = length xs"
    using TodoService_createMany_Inr [of now s xs s1 cs] a r1 by simp
  ultimately have "created ! length xs = t" using cr by (simp add: nth_append)
  then show ?thesis using a r1 c r2 by blast
qed

text \<open>
  Claim C6. \<^verbatim>\<open>createMany\<close> applies \<^verbatim>\<open>create\<close> to the items in their order. When it returns,
  it returns one record for each item: the record at each position is what \<^verbatim>\<open>create\<close>
  returned for the item at that position, in the store that the items before it left, and
  the records are the rows appended to the todos. When it fails, it fails with the failure
  of the first item whose \<^verbatim>\<open>create\<close> fails, and the store is the one that the successful
  creation of the items before it left: their rows stay appended.
\<close>

theorem createMany_in_order_without_rollback:
  "(\<forall>s' created. TodoService_createMany now s items = (s', Inr created) \<longrightarrow>
      length created = length items \<and> todos s' = todos s @ created \<and>
      (\<forall>xs x ys. items = xs @ x # ys \<longrightarrow>
         (\<exists>s1 cs s2. TodoService_createMany now s xs = (s1, Inr cs) \<and>
            TodoService_create now s1 x = (s2, Inr (created ! length xs))))) \<and>
   (\<forall>s' e. TodoService_createMany now s items = (s', Inl e) \<longrightarrow>
      (\<exists>xs x ys cs. items = xs @ x # ys \<and>
         TodoService_createMany now s xs = (s', Inr cs) \<and>
         length cs = length xs \<and> todos s' = todos s @ cs \<and>
         TodoService_create now s' x = (s', Inl e)))"
proof (intro conjI allI impI)
  fix s' created assume a: "TodoService_createMany now s items = (s', Inr created)"
  show "length created = length items" "todos s' = todos s @ created"
    using TodoService_createMany_Inr [OF a] by simp_all
  fix xs x ys assume "items = xs @ x # ys"
  then show "\<exists>s1 cs s2. TodoService_createMany now s xs = (s1, Inr cs) \<and>
            TodoService_create now s1 x = (s2, Inr (created ! length xs))"
    by (rule TodoService_createMany_in_order [OF a])
next
  fix s' e assume "TodoService_createMany now s items = (s', Inl e)"
  then obtain xs x ys cs where i: "items = xs @ x # ys"
    "TodoService_createMany now s xs = (s', Inr cs)"
    "TodoService_create now s' x = (s', Inl e)"
    using TodoService_createMany_Inl by blast
  then show "\<exists>xs x ys cs. items = xs @ x # ys \<and>
         TodoService_createMany now s xs = (s', Inr cs) \<and>
         length cs = length xs \<and> todos s' = todos s @ cs \<and>
         TodoService_create now s' x = (s', Inl e)"
    using TodoService_createMany_Inr [OF i(2)] by blast
qed

text \<open>
  Witness of C6, in the scenario of the tests: two subtasks of the task are created in
  order as the todos 4 and 5; and of a subtask of the task, a child of a subtask and
  another subtask of the task, the first is created and stays, the second fails with
  \<^verbatim>\<open>MAX_DEPTH_EXCEEDED\<close>, which ends the call, and the third is never created.
\<close>

theorem createMany_in_order_without_rollback_witness:
  "(case TodoService_createMany ''2026-02-02 09:00:00'' scenario_store
      [\<lparr>tc_title = ''A'', tc_description = None, tc_priority = None, tc_due_date = None,
         tc_project_id = None, tc_parent_id = Some 1, tc_milestone_id = None\<rparr>,
       \<lparr>tc_title = ''B'', tc_description = None, tc_priority = None, tc_due_date = None,
         tc_project_id = None, tc_parent_id = Some 1, tc_milestone_id = None\<rparr>] of
      (s', Inl e) \<Rightarrow> False
    | (s', Inr created) \<Rightarrow>
        map t_title created = [''A'', ''B''] \<and> map t_id created = [4, 5] \<and>
        todos s' = todos scenario_store @ created) \<and>
   (case TodoService_createMany ''2026-02-02 09:00:00'' scenario_store
      [\<lparr>tc_title = ''A'', tc_description = None, tc_priority = None, tc_due_date = None,
         tc_project_id = None, tc_parent_id = Some 1, tc_milestone_id = None\<rparr>,
       \<lparr>tc_title = ''X'', tc_description = None, tc_priority = None, tc_due_date = None,
         tc_project_id = None, tc_parent_id = Some 2, tc_milestone_id = None\<rparr>,
       \<lparr>tc_title = ''C'', tc_description = None, tc_priority = None, tc_due_date = None,
         tc_project_id = None, tc_parent_id = Some 1, tc_milestone_id = None\<rparr>] of
      (s', Inl e) \<Rightarrow>
        e = ServiceError 400 ''MAX_DEPTH_EXCEEDED'' \<and>
        map t_title (todos s') = [''T'', ''S1'', ''S2'', ''A'']
    | (s', Inr created) \<Rightarrow> False)"
proof -
  let ?now = "''2026-02-02 09:00:00''"
  let ?A = "\<lparr>tc_title = ''A'', tc_description = None, tc_priority = None, tc_due_date = None,
         tc_project_id = None, tc_parent_id = Some 1, tc_milestone_id = None\<rparr>"
  let ?B = "\<lparr>tc_title = ''B'', tc_description = None, tc_priority = None, tc_due_date = None,
         tc_project_id = None, tc_parent_id = Some 1, tc_milestone_id = None\<rparr>"
  let ?X = "\<lparr>tc_title = ''X'', tc_description = None, tc_priority = None, tc_due_date = None,
         tc_project_id = None, tc_parent_id = Some 2, tc_milestone_id = None\<rparr>"
  let ?C = "\<lparr>tc_title = ''C'', tc_description = None, tc_priority = None, tc_due_date = None,
         tc_project_id = None, tc_parent_id = Some 1, tc_milestone_id = None\<rparr>"
  obtain s1 created where ok: "TodoService_createMany ?now scenario_store [?A, ?B] = (s1, Inr created)"
    and v: "map t_title created = [''A'', ''B'']" "map t_id created = [4, 5]"
    by (simp add: scenario_store_eq service_defs Let_def)
  obtain s2 where bad: "TodoService_createMany ?now scenario_store [?A, ?X, ?C]
      = (s2, Inl (ServiceError 400 ''MAX_DEPTH_EXCEEDED''))"
    and w: "map t_title (todos s2) = [''T'', ''S1'', ''S2'', ''A'']"
    by (simp add: scenario_store_eq service_defs Let_def)
  have "todos s1 = todos scenario_store @ created"
    using createMany_in_order_without_rollback [of ?now scenario_store "[?A, ?B]"] ok by blast
  then show ?thesis
    unfolding ok bad using v w by simp
qed

section \<open>Updates\<close>

lemma list_all2_map_update:
  assumes "\<And>x. R x (g x)"
  shows "list_all2 (\<lambda>x y. if f x = i then R x y else y = x) xs
           (map (\<lambda>x. if f x = i then g x else x) xs)"
  using assms by (induction xs) simp_all

lemma project_changed_as_supplied_apply:
  "project_changed_as_supplied now data p (apply_project_update now data p)"
  by (simp add: project_changed_as_supplied_def apply_project_update_def)

lemma todo_changed_as_supplied_apply:
  "todo_changed_as_supplied now data t (apply_todo_update now data t)"
  by (simp add: todo_changed_as_supplied_def)

lemma ProjectService_update_existing:
  assumes "find (\<lambda>p. p_id p = ident) (projects s) = Some p"
  shows "ProjectService_update now s ident data =
     (save (s\<lparr>projects := map (\<lambda>p. if p_id p = ident then apply_project_update now data p else p)
                       (projects s)\<rparr>),
      Inr (attachProgress
             (save (s\<lparr>projects := map (\<lambda>p. if p_id p = ident then apply_project_update now data p else p)
                       (projects s)\<rparr>))
             (apply_project_update now data p)))"
proof -
  let ?s' = "save (s\<lparr>projects := map (\<lambda>p. if p_id p = ident then apply_project_update now data p else p)
                       (projects s)\<rparr>)"
  have "find (\<lambda>p. p_id p = ident) (projects ?s') = Some (apply_project_update now data p)"
    using find_map_update [of p_id "apply_project_update now data" ident "projects s"] assms
    by simp
  then have "ProjectService_getById ?s' ident = Inr (attachProgress ?s' (apply_project_update now data p))"
    by (simp add: ProjectService_getById_def)
  moreover have "ProjectService_getById s ident = Inr (attachProgress s p)"
    using assms by (simp add: ProjectService_getById_def)
  ultimately show ?thesis by (simp add: ProjectService_update_def Let_def)
qed

lemma TodoService_update_accepted:
  assumes "find (\<lambda>t. t_id t = ident) (todos s) = Some t" "update_accepted s data"
  shows "TodoService_update now s ident data =
     (save (s\<lparr>todos := map (\<lambda>t. if t_id t = ident then apply_todo_update now data t else t)
                     (todos s)\<rparr>),
      Inr (apply_todo_update now data t))"
proof -
  let ?s' = "save (s\<lparr>todos := map (\<lambda>t. if t_id t = ident then apply_todo_update now data t else t)
                           (todos s)\<rparr>)"
  have u: "update_todo now s ident data = Inr ?s'"
    using assms(2) by (rule update_todo_ok)
  have "find (\<lambda>t. t_id t = ident) (todos ?s') = Some (apply_todo_update now data t)"
    using find_map_update [of t_id "apply_todo_update now data" ident "todos s"] assms(1)
    by simp
  then have "TodoService_getById ?s' ident = Inr (apply_todo_update now data t)"
    by (simp add: TodoService_getById_def)
  moreover have "TodoService_getById s ident = Inr t"
    using assms(1) by (simp add: TodoService_getById_def)
  ultimately show ?thesis using u by (simp add: TodoService_update_def)
qed

lemma TodoService_update_rejected:
  assumes "find (\<lambda>t. t_id t = ident) (todos s) = Some t" "\<not> update_accepted s data"
  shows "\<exists>c. TodoService_update now s ident data = (s, Inl (ConstraintFailed c))"
proof -
  have "TodoService_getById s ident = Inr t"
    using assms(1) by (simp add: TodoService_getById_def)
  moreover have "\<exists>c. update_todo now s ident data = Inl (ConstraintFailed c)"
    using assms(2) by (auto simp: update_todo_def update_accepted_def split: option.splits if_splits)
  ultimately show ?thesis by (auto simp: TodoService_update_def)
qed

lemma update_accepted_no_fields: "update_accepted s no_fields"
  by (simp add: update_accepted_def no_fields_def supplied_ref_ok_def)

text \<open>
  Claim C7. For an existing project, \<^verbatim>\<open>ProjectService.update\<close> succeeds; in the rows with
  the id each supplied field has the supplied value, the update timestamp is the current
  time and every other field is as before; every other project row, the milestones, the
  todos and the row counters are unchanged; the returned record is the updated row. For
  an existing todo, \<^verbatim>\<open>TodoService.update\<close> changes the rows with the id in the same way
  and returns the updated row when the store accepts the supplied values (priority within
  1 to 5 and, where foreign keys are enforced, references to stored rows), and otherwise
  fails with the store's error and changes nothing; it never changes another todo row or
  another table. With no field supplied both updates succeed and change the update
  timestamp only. A supplied date has the value the column stores for it. After a
  successful update the database is saved.
\<close>

theorem update_changes_only_supplied_fields:
  "(ident \<in> p_id ` set (projects s) \<longrightarrow>
      (\<exists>s' pw. ProjectService_update now s ident pdata = (s', Inr pw) \<and>
         list_all2 (\<lambda>p p'. if p_id p = ident then project_changed_as_supplied now pdata p p'
                            else p' = p) (projects s) (projects s') \<and>
         milestones s' = milestones s \<and> todos s' = todos s \<and>
         seq_projects s' = seq_projects s \<and> seq_milestones s' = seq_milestones s \<and>
         seq_todos s' = seq_todos s \<and> filePath s' = filePath s \<and>
         p_id pw = ident \<and> Project.truncate pw \<in> set (projects s')) \<and>
      fst (ProjectService_update now s ident
             \<lparr>pu_name = None, pu_description = None, pu_status = None\<rparr>)
        = save (s\<lparr>projects := map (\<lambda>p. if p_id p = ident then p\<lparr>p_updated_at := now\<rparr> else p)
                                 (projects s)\<rparr>)) \<and>
   (ident \<in> t_id ` set (todos s) \<longrightarrow>
      (\<exists>s' r. TodoService_update now s ident tdata = (s', r) \<and>
         projects s' = projects s \<and> milestones s' = milestones s \<and>
         seq_projects s' = seq_projects s \<and> seq_milestones s' = seq_milestones s \<and>
         seq_todos s' = seq_todos s \<and> filePath s' = filePath s \<and>
         (case r of
            Inl e \<Rightarrow> \<not> update_accepted s tdata \<and> todos s' = todos s
          | Inr t \<Rightarrow>
              update_accepted s tdata \<and>
              list_all2 (\<lambda>u u'. if t_id u = ident then todo_changed_as_supplied now tdata u u'
                                 else u' = u) (todos s) (todos s') \<and>
              t_id t = ident \<and> t \<in> set (todos s'))) \<and>
      (\<exists>t. TodoService_update now s ident no_fields
         = (save (s\<lparr>todos := map (\<lambda>u. if t_id u = ident then u\<lparr>t_updated_at := now\<rparr> else u)
                           (todos s)\<rparr>),
            Inr t)))"
proof (intro conjI impI)
  assume "ident \<in> p_id ` set (projects s)"
  then obtain p where p: "find (\<lambda>p. p_id p = ident) (projects s) = Some p"
    "p \<in> set (projects s)" "p_id p = ident"
    using find_Some_ids [of ident p_id "projects s"] by blast
  let ?g = "\<lambda>data p. if p_id p = ident then apply_project_update now data p else p"
  let ?s' = "save (s\<lparr>projects := map (?g pdata) (projects s)\<rparr>)"
  let ?pw = "attachProgress ?s' (apply_project_update now pdata p)"
  have u: "ProjectService_update now s ident pdata = (?s', Inr ?pw)"
    using p(1) by (rule ProjectService_update_existing)
  have l: "list_all2 (\<lambda>p p'. if p_id p = ident then project_changed_as_supplied now pdata p p'
                            else p' = p) (projects s) (projects ?s')"
    using list_all2_map_update [of "project_changed_as_supplied now pdata"
        "apply_project_update now pdata" p_id ident "projects s"]
    by (simp add: project_changed_as_supplied_apply)
  have "apply_project_update now pdata p \<in> set (projects ?s')"
    using p(2,3) by (auto simp: image_iff intro!: bexI [of _ p])
  then have m: "Project.truncate ?pw \<in> set (projects ?s')" "p_id ?pw = ident"
    using p(3) by (simp_all add: attachProgress_fields(4))
  show "\<exists>s' pw. ProjectService_update now s ident pdata = (s', Inr pw) \<and>
         list_all2 (\<lambda>p p'. if p_id p = ident then project_changed_as_supplied now pdata p p'
                            else p' = p) (projects s) (projects s') \<and>
         milestones s' = milestones s \<and> todos s' = todos s \<and>
         seq_projects s' = seq_projects s \<and> seq_milestones s' = seq_milestones s \<and>
         seq_todos s' = seq_todos s \<and> filePath s' = filePath s \<and>
         p_id pw = ident \<and> Project.truncate pw \<in> set (projects s')"
    using u l m by (intro exI [of _ ?s'] exI [of _ ?pw]) simp
  have eq: "apply_project_update now \<lparr>pu_name = None, pu_description = None, pu_status = None\<rparr>
      = (\<lambda>q. q\<lparr>p_updated_at := now\<rparr>)"
    by (rule ext) (simp add: apply_project_update_def)
  show "fst (ProjectService_update now s ident
             \<lparr>pu_name = None, pu_description = None, pu_status = None\<rparr>)
        = save (s\<lparr>projects := map (\<lambda>p. if p_id p = ident then p\<lparr>p_updated_at := now\<rparr> else p)
                                 (projects s)\<rparr>)"
    unfolding ProjectService_update_existing [OF p(1)] fst_conv eq ..
next
  assume "ident \<in> t_id ` set (todos s)"
  then obtain t where t: "find (\<lambda>t. t_id t = ident) (todos s) = Some t"
    "t \<in> set (todos s)" "t_id t = ident"
    using find_Some_ids [of ident t_id "todos s"] by blast
  let ?g = "\<lambda>data t. if t_id t = ident then apply_todo_update now data t else t"
  show "\<exists>s' r. TodoService_update now s ident tdata = (s', r) \<and>
         projects s' = projects s \<and> milestones s' = milestones s \<and>
         seq_projects s' = seq_projects s \<and> seq_milestones s' = seq_milestones s \<and>
         seq_todos s' = seq_todos s \<and> filePath s' = filePath s \<and>
         (case r of
            Inl e \<Rightarrow> \<not> update_accepted s tdata \<and> todos s' = todos s
          | Inr t \<Rightarrow>
              update_accepted s tdata \<and>
              list_all2 (\<lambda>u u'. if t_id u = ident then todo_changed_as_supplied now tdata u u'
                                 else u' = u) (todos s) (todos s') \<and>
              t_id t = ident \<and> t \<in> set (todos s'))"
  proof (cases "update_accepted s tdata")
    case True
    let ?s' = "save (s\<lparr>todos := map (?g tdata) (todos s)\<rparr>)"
    have u: "TodoService_update now s ident tdata = (?s', Inr (apply_todo_update now tdata t))"
      using t(1) True by (rule TodoService_update_accepted)
    have l: "list_all2 (\<lambda>u u'. if t_id u = ident then todo_changed_as_supplied now tdata u u'
                                 else u' = u) (todos s) (todos ?s')"
      using list_all2_map_update [of "todo_changed_as_supplied now tdata"
          "apply_todo_update now tdata" t_id ident "todos s"]
      by (simp add: todo_changed_as_supplied_apply)
    have m: "apply_todo_update now tdata t \<in> set (todos ?s')"
      using t(2,3) by (auto simp: image_iff intro!: bexI [of _ t])
    show ?thesis
      using u l m True t(3)
      by (intro exI [of _ ?s'] exI [of _ "Inr (apply_todo_update now tdata t)"]) simp
  next
    case False
    obtain c where "TodoService_update now s ident tdata = (s, Inl (ConstraintFailed c))"
      using TodoService_update_rejected [OF t(1) False] by blast
    then show ?thesis
      using False by (intro exI [of _ s] exI [of _ "Inl (ConstraintFailed c)"]) simp
  qed
  show "\<exists>t. TodoService_update now s ident no_fields
         = (save (s\<lparr>todos := map (\<lambda>u. if t_id u = ident then u\<lparr>t_updated_at := now\<rparr> else u)
                           (todos s)\<rparr>),
            Inr t)"
  proof -
    have eq: "apply_todo_update now no_fields = (\<lambda>u. u\<lparr>t_updated_at := now\<rparr>)"
      by (rule ext) (rule apply_todo_update_no_fields)
    show ?thesis
      using TodoService_update_accepted [OF t(1) update_accepted_no_fields, of now]
      unfolding eq by (intro exI)
  qed
qed

text \<open>
  Witness of C7, in the scenario of the tests: the project is renamed, the todo 2 gets a
  new title, an update of the todo 2 without fields refreshes its timestamp only, and the
  todo 3 gets the due date \<^verbatim>\<open>'007'\<close>, which the column stores as the number 7.
\<close>

theorem update_changes_only_supplied_fields_witness:
  "1 \<in> p_id ` set (projects scenario_store) \<and>
   2 \<in> t_id ` set (todos scenario_store) \<and>
   map p_name (projects (fst (ProjectService_update ''2026-02-02 09:00:00'' scenario_store 1
     \<lparr>pu_name = Some ''R'', pu_description = None, pu_status = None\<rparr>))) = [''R''] \<and>
   milestones (fst (ProjectService_update ''2026-02-02 09:00:00'' scenario_store 1
     \<lparr>pu_name = Some ''R'', pu_description = None, pu_status = None\<rparr>))
     = milestones scenario_store \<and>
   todos (fst (ProjectService_update ''2026-02-02 09:00:00'' scenario_store 1
     \<lparr>pu_name = Some ''R'', pu_description = None, pu_status = None\<rparr>))
     = todos scenario_store \<and>
   map t_title (todos (fst (TodoService_update ''2026-02-02 09:00:00'' scenario_store 2
     (no_fields\<lparr>tu_title := Some ''S1b''\<rparr>)))) = [''T'', ''S1b'', ''S2''] \<and>
   projects (fst (TodoService_update ''2026-02-02 09:00:00'' scenario_store 2
     (no_fields\<lparr>tu_title := Some ''S1b''\<rparr>))) = projects scenario_store \<and>
   todos (fst (TodoService_update ''2026-02-02 09:00:00'' scenario_store 2 no_fields))
     = (todos scenario_store)
         [1 := (todos scenario_store ! 1)\<lparr>t_updated_at := ''2026-02-02 09:00:00''\<rparr>] \<and>
   map t_due_date (todos (fst (TodoService_update ''2026-02-02 09:00:00'' scenario_store 3
     (no_fields\<lparr>tu_due_date := Some (Some ''007'')\<rparr>))))
     = [None, None, Some (SqlInteger 7)]"
proof -
  let ?now = "''2026-02-02 09:00:00''"
  let ?pu = "\<lparr>pu_name = Some ''R'', pu_description = None, pu_status = None\<rparr>"
  let ?tu = "no_fields\<lparr>tu_title := Some ''S1b''\<rparr>"
  have a: "1 \<in> p_id ` set (projects scenario_store)" "2 \<in> t_id ` set (todos scenario_store)"
    by (simp_all add: scenario_store_eq)
  have b: "map p_name (projects (fst (ProjectService_update ?now scenario_store 1 ?pu))) = [''R'']"
    by (simp add: scenario_store_eq ProjectService_update_def ProjectService_getById_def
        apply_project_update_def Let_def)
  have c: "map t_title (todos (fst (TodoService_update ?now scenario_store 2 ?tu)))
      = [''T'', ''S1b'', ''S2'']"
    by (simp add: scenario_store_eq service_defs Let_def)
  obtain s1 pw where "ProjectService_update ?now scenario_store 1 ?pu = (s1, Inr pw)"
    "milestones s1 = milestones scenario_store" "todos s1 = todos scenario_store"
    using update_changes_only_supplied_fields [of 1 scenario_store ?now ?pu] a(1) by blast
  then have d: "milestones (fst (ProjectService_update ?now scenario_store 1 ?pu))
      = milestones scenario_store"
    "todos (fst (ProjectService_update ?now scenario_store 1 ?pu)) = todos scenario_store"
    by simp_all
  obtain s2 r where "TodoService_update ?now scenario_store 2 ?tu = (s2, r)"
    "projects s2 = projects scenario_store"
    using update_changes_only_supplied_fields [of 2 scenario_store ?now _ ?tu] a(2) by blast
  then have e: "projects (fst (TodoService_update ?now scenario_store 2 ?tu))
      = projects scenario_store"
    by simp
  obtain t where "TodoService_update ?now scenario_store 2 no_fields
      = (save (scenario_store\<lparr>todos :=
           map (\<lambda>u. if t_id u = 2 then u\<lparr>t_updated_at := ?now\<rparr> else u)
             (todos scenario_store)\<rparr>), Inr t)"
    using update_changes_only_supplied_fields [of 2 scenario_store ?now] a(2) by blast
  then have f: "todos (fst (TodoService_update ?now scenario_store 2 no_fields))
      = (todos scenario_store) [1 := (todos scenario_store ! 1)\<lparr>t_updated_at := ?now\<rparr>]"
    by (simp add: scenario_store_eq)
  have g: "map t_due_date (todos (fst (TodoService_update ?now scenario_store 3
      (no_fields\<lparr>tu_due_date := Some (Some ''007'')\<rparr>)))) = [None, None, Some (SqlInteger 7)]"
    by (simp add: scenario_store_eq service_defs numeric_affinity_number Let_def)
  show ?thesis using a b c d e f g by (intro conjI)
qed

end
